theory Spec2Isabelle
  imports Main "HOL-Library.AList" "HOL-Library.Sublist"
begin

section \<open>Shared vocabulary\<close>

text \<open>
  JavaScript strings are modelled as HOL strings: one list element stands for one code
  unit, so \<open>length\<close> is the \<open>.length\<close> that the source and its validation library
  read.  Exceptions are values of \<open>js_error\<close>; a function that may throw returns
  \<open>js_error + 'a\<close>, with \<open>Inl\<close> for the thrown error.
\<close>

datatype js_error =
    SyntaxError
  | TypeError
  | DbError
  | Error string

section \<open>Notification publisher (notification-publisher.ts)\<close>

definition MAX_PAYLOAD_SIZE :: nat where
  "MAX_PAYLOAD_SIZE = 7900"

definition BYTES_PER_LOG_ID :: nat where
  "BYTES_PER_LOG_ID = 40"

text \<open>\<open>Math.floor(MAX_PAYLOAD_SIZE / BYTES_PER_LOG_ID)\<close>: both operands are non-negative
  integers, so the floor of the quotient is \<open>div\<close>.\<close>

definition MAX_LOG_IDS_PER_CHUNK :: nat where
  "MAX_LOG_IDS_PER_CHUNK = MAX_PAYLOAD_SIZE div BYTES_PER_LOG_ID"

text \<open>The object that \<open>sendNotification\<close> serialises into the payload of one
  \<open>pg_notify\<close> call.\<close>

record log_notification =
  projectId :: string
  logIds :: "string list"
  timestamp :: string

text \<open>
  The world the publisher acts on: the messages accepted so far by the database, each with
  its channel; the outcomes of the coming \<open>pg_notify\<close> calls (\<open>True\<close> for a call
  that throws; a call after the end of the list succeeds); the clock, as the reading that
  the \<open>n\<close>-th \<open>new Date().toISOString()\<close> gives, with the number of readings taken so
  far; and the console.  Building the payload cannot fail: an object of strings always
  serialises.
\<close>

record pg_world =
  notified :: "(string \<times> log_notification) list"
  faults :: "bool list"
  clock :: "nat \<Rightarrow> string"
  readings :: nat
  console :: "string list"

text \<open>\<open>Array.prototype.slice(start, end)\<close> for \<open>0 \<le> start \<le> end\<close>: indices past
  the end of the array are clamped.\<close>

definition slice :: "'a list \<Rightarrow> nat \<Rightarrow> nat \<Rightarrow> 'a list" where
  "slice xs i j = take (j - i) (drop i xs)"

definition sendNotification ::
  "pg_world \<Rightarrow> string \<Rightarrow> string list \<Rightarrow> (js_error + unit) \<times> pg_world" where
  "sendNotification w pid ids =
     (let payload = \<lparr>projectId = pid, logIds = ids, timestamp = clock w (readings w)\<rparr>;
          w1 = w\<lparr>readings := Suc (readings w)\<rparr>
      in case faults w1 of
           [] \<Rightarrow> (Inr (), w1\<lparr>notified := notified w1 @ [(''logs_new'', payload)]\<rparr>)
         | f # fs \<Rightarrow>
             if f then (Inl DbError, w1\<lparr>faults := fs\<rparr>)
             else (Inr (), w1\<lparr>notified := notified w1 @ [(''logs_new'', payload)],
                              faults := fs\<rparr>))"

text \<open>The \<open>for\<close> loop of \<open>publishLogIngestion\<close>, from index \<open>i\<close> on.  A throwing
  \<open>sendNotification\<close> leaves the loop at once.\<close>

function send_chunks ::
  "pg_world \<Rightarrow> string \<Rightarrow> string list \<Rightarrow> nat \<Rightarrow> (js_error + unit) \<times> pg_world" where
  "send_chunks w pid ids i =
     (if i < length ids then
        (case sendNotification w pid (slice ids i (i + MAX_LOG_IDS_PER_CHUNK)) of
           (Inl e, w') \<Rightarrow> (Inl e, w')
         | (Inr _, w') \<Rightarrow> send_chunks w' pid ids (i + MAX_LOG_IDS_PER_CHUNK))
      else (Inr (), w))"
  by pat_completeness auto
termination
  by (relation "measure (\<lambda>(w, pid, ids, i). length ids - i)")
     (auto simp: MAX_LOG_IDS_PER_CHUNK_def MAX_PAYLOAD_SIZE_def BYTES_PER_LOG_ID_def)

declare send_chunks.simps [simp del]

definition publishLogIngestion ::
  "pg_world \<Rightarrow> string \<Rightarrow> string list \<Rightarrow> (js_error + unit) \<times> pg_world" where
  "publishLogIngestion w pid ids =
     (if length ids = 0 then (Inr (), w)
      else
        (case (if length ids > MAX_LOG_IDS_PER_CHUNK
               then send_chunks (w\<lparr>console := console w @ [''Large batch, chunking'']\<rparr>) pid ids 0
               else sendNotification w pid ids) of
           (Inl e, w') \<Rightarrow>
             (Inr (), w'\<lparr>console := console w' @ [''Failed to publish notification'']\<rparr>)
         | (Inr u, w') \<Rightarrow> (Inr u, w')))"

text \<open>The chunks that the loop cuts, written without the world: what a run with no
  failing call sends, in order.\<close>

function chunks_from :: "string list \<Rightarrow> nat \<Rightarrow> string list list" where
  "chunks_from ids i =
     (if i < length ids
      then slice ids i (i + MAX_LOG_IDS_PER_CHUNK) # chunks_from ids (i + MAX_LOG_IDS_PER_CHUNK)
      else [])"
  by pat_completeness auto
termination
  by (relation "measure (\<lambda>(ids, i). length ids - i)")
     (auto simp: MAX_LOG_IDS_PER_CHUNK_def MAX_PAYLOAD_SIZE_def BYTES_PER_LOG_ID_def)

declare chunks_from.simps [simp del]

text \<open>How many of \<open>n\<close> consecutive \<open>pg_notify\<close> calls the database accepts before
  the first failing one, for the fault sequence \<open>fs\<close>.\<close>

fun accepted_calls :: "bool list \<Rightarrow> nat \<Rightarrow> nat" where
  "accepted_calls fs 0 = 0"
| "accepted_calls [] (Suc n) = Suc n"
| "accepted_calls (f # fs) (Suc n) = (if f then 0 else Suc (accepted_calls fs n))"

text \<open>The messages on \<open>logs_new\<close> that carry the chunks \<open>cs\<close> for the project
  \<open>pid\<close>, in order, stamped with the clock's readings from the \<open>n\<close>-th on.\<close>

fun logs_new_messages ::
  "(nat \<Rightarrow> string) \<Rightarrow> nat \<Rightarrow> string \<Rightarrow> string list list \<Rightarrow> (string \<times> log_notification) list" where
  "logs_new_messages clk n pid [] = []"
| "logs_new_messages clk n pid (c # cs) =
     (''logs_new'', \<lparr>projectId = pid, logIds = c, timestamp = clk n\<rparr>) #
       logs_new_messages clk (Suc n) pid cs"

section \<open>Notification manager (notification-manager.ts)\<close>

text \<open>The value that \<open>JSON.parse\<close> returns.  An object is an association list read
  with \<open>map_of\<close>; a number is kept as an integer, since no function here computes
  with it.\<close>

datatype json =
    JNull
  | JBool bool
  | JNum int
  | JStr string
  | JArr "json list"
  | JObj "(string \<times> json) list"

text \<open>What a call of a subscriber's callback does: it returns a promise that resolves, or
  a promise that rejects with a message, or it throws before it returns a promise (the
  type \<open>(event) => Promise<void>\<close> admits a function that is not \<open>async\<close> and
  throws).  \<open>sub_id\<close> and \<open>sub_projectId\<close> are the fields \<open>id\<close> and \<open>projectId\<close> of
  the source's \<open>LogSubscriber\<close>.\<close>

datatype callback_outcome = Resolved | Rejected string | Throws string

record LogSubscriber =
  sub_id :: string
  sub_projectId :: string
  services :: "string list option"
  levels :: "string list option"
  onNotification :: "json \<Rightarrow> callback_outcome"

record pg_notification =
  channel :: string
  payload :: "string option"

datatype pg_client = Client string

text \<open>
  The fields of the class, followed by three traces of what it does to the outside:
  the events it emits as an \<open>EventEmitter\<close>, the console, and the callback invocations
  (subscriber and event) in the order they are made.  \<open>subscribers\<close> is a JavaScript
  \<open>Map\<close>: an association list in insertion order.  \<open>reconnectTimer\<close> holds the delay
  of the pending timeout.
\<close>

record NotificationManager =
  client :: "pg_client option"
  subscribers :: "(string \<times> LogSubscriber) list"
  reconnectTimer :: "nat option"
  isConnected :: bool
  isShuttingDown :: bool
  databaseUrl :: "string option"
  reconnectAttempts :: nat
  maxReconnectAttempts :: nat
  emitted :: "string list"
  console_log :: "string list"
  dispatched :: "(LogSubscriber \<times> json) list"

definition new_NotificationManager :: NotificationManager where
  "new_NotificationManager =
     \<lparr>client = None, subscribers = [], reconnectTimer = None, isConnected = False,
      isShuttingDown = False, databaseUrl = None, reconnectAttempts = 0,
      maxReconnectAttempts = 10, emitted = [], console_log = [], dispatched = []\<rparr>"

text \<open>\<open>Map.prototype.set\<close>, \<open>delete\<close>, \<open>has\<close> and \<open>values\<close>: \<open>set\<close> on a
  present key replaces the value where it stands, on a new key appends.\<close>

definition Map_set :: "('k \<times> 'v) list \<Rightarrow> 'k \<Rightarrow> 'v \<Rightarrow> ('k \<times> 'v) list" where
  "Map_set m k v = AList.update k v m"

definition Map_delete :: "('k \<times> 'v) list \<Rightarrow> 'k \<Rightarrow> ('k \<times> 'v) list" where
  "Map_delete m k = AList.delete k m"

definition Map_has :: "('k \<times> 'v) list \<Rightarrow> 'k \<Rightarrow> bool" where
  "Map_has m k = (k \<in> set (map fst m))"

definition Map_values :: "('k \<times> 'v) list \<Rightarrow> 'v list" where
  "Map_values m = map snd m"

definition log_line :: "NotificationManager \<Rightarrow> string \<Rightarrow> NotificationManager" where
  "log_line s l = s\<lparr>console_log := console_log s @ [l]\<rparr>"

definition emit :: "NotificationManager \<Rightarrow> string \<Rightarrow> NotificationManager" where
  "emit s e = s\<lparr>emitted := emitted s @ [e]\<rparr>"

text \<open>\<open>Math.min(1000 * Math.pow(2, attempts - 1), 30000)\<close>, called with
  \<open>attempts \<ge> 1\<close> only.\<close>

definition reconnect_delay :: "nat \<Rightarrow> nat" where
  "reconnect_delay attempts = min (1000 * 2 ^ (attempts - 1)) 30000"

definition scheduleReconnect :: "NotificationManager \<Rightarrow> NotificationManager" where
  "scheduleReconnect s =
     (if reconnectTimer s \<noteq> None \<or> isShuttingDown s then s
      else
        let s1 = s\<lparr>reconnectAttempts := reconnectAttempts s + 1\<rparr> in
        if reconnectAttempts s1 > maxReconnectAttempts s1
        then log_line s1 ''Max reconnect attempts reached''
        else (log_line s1 ''Reconnecting'')
               \<lparr>reconnectTimer := Some (reconnect_delay (reconnectAttempts s1))\<rparr>)"

text \<open>What the database answers to one \<open>connect()\<close>: both awaited calls succeed, or
  \<open>client.connect()\<close> rejects, or \<open>LISTEN logs_new\<close> rejects.  A \<open>connect()\<close> is one
  step of the model, from its call to its last effect.  \<open>!this.databaseUrl\<close> holds for
  an unset and for an empty URL; the error is thrown before the \<open>try\<close>, so nothing is
  rescheduled then.\<close>

datatype connect_result = Connected | ConnectRejected | ListenRejected

definition connect ::
  "NotificationManager \<Rightarrow> connect_result \<Rightarrow> (js_error + unit) \<times> NotificationManager" where
  "connect s r =
     (case databaseUrl s of
        None \<Rightarrow> (Inl (Error ''Database URL not set''), s)
      | Some url \<Rightarrow>
          if url = [] then (Inl (Error ''Database URL not set''), s)
          else
          let s1 = s\<lparr>client := Some (Client url)\<rparr> in
          (case r of
             Connected \<Rightarrow>
               let s2 = log_line (log_line s1 ''Connected to PostgreSQL'') ''Listening to logs_new channel''
               in (Inr (), emit (s2\<lparr>isConnected := True, reconnectAttempts := 0\<rparr>) ''connected'')
           | ConnectRejected \<Rightarrow>
               (Inr (), scheduleReconnect ((log_line s1 ''Failed to connect'')\<lparr>client := None\<rparr>))
           | ListenRejected \<Rightarrow>
               (Inr (), scheduleReconnect
                  ((log_line (log_line s1 ''Connected to PostgreSQL'') ''Failed to connect'')
                     \<lparr>client := None\<rparr>))))"

definition initialize ::
  "NotificationManager \<Rightarrow> string \<Rightarrow> connect_result \<Rightarrow> (js_error + unit) \<times> NotificationManager" where
  "initialize s url r =
     (if client s \<noteq> None then (Inr (), log_line s ''Already initialized'')
      else connect (s\<lparr>databaseUrl := Some url\<rparr>) r)"

text \<open>The callback given to \<open>setTimeout\<close>, run when the pending timer fires; with no
  timer pending nothing runs.  A rejected \<open>connect()\<close> is caught and logged.\<close>

definition timer_fires :: "NotificationManager \<Rightarrow> connect_result \<Rightarrow> NotificationManager" where
  "timer_fires s r =
     (case reconnectTimer s of
        None \<Rightarrow> s
      | Some d \<Rightarrow>
          (case connect (s\<lparr>reconnectTimer := None\<rparr>) r of
             (Inl e, s') \<Rightarrow> log_line s' ''Reconnect failed''
           | (Inr u, s') \<Rightarrow> s'))"

definition handleDisconnect :: "NotificationManager \<Rightarrow> NotificationManager" where
  "handleDisconnect s =
     (let s1 = emit (s\<lparr>isConnected := False\<rparr>) ''disconnected'';
          s2 = (if client s1 \<noteq> None then s1\<lparr>client := None\<rparr> else s1)
      in if \<not> isShuttingDown s2
         then scheduleReconnect (log_line s2 ''Disconnected, scheduling reconnect'')
         else s2)"

text \<open>The handler of the client's \<open>error\<close> event.\<close>

definition client_error :: "NotificationManager \<Rightarrow> NotificationManager" where
  "client_error s = handleDisconnect (log_line s ''Client error'')"

text \<open>\<open>subscribe\<close> returns the closure that holds the subscriber object it was given;
  calling the closure is \<open>call_unsubscribe\<close>.\<close>

definition unsubscribe :: "NotificationManager \<Rightarrow> string \<Rightarrow> NotificationManager" where
  "unsubscribe s subscriberId =
     (let existed = Map_has (subscribers s) subscriberId;
          s1 = s\<lparr>subscribers := Map_delete (subscribers s) subscriberId\<rparr>
      in if existed
         then log_line (log_line s1 ''Subscriber removed'') ''Total subscribers''
         else s1)"

definition subscribe ::
  "NotificationManager \<Rightarrow> LogSubscriber \<Rightarrow> LogSubscriber \<times> NotificationManager" where
  "subscribe s subscriber =
     (subscriber,
      log_line
        (log_line (s\<lparr>subscribers := Map_set (subscribers s) (sub_id subscriber) subscriber\<rparr>)
           ''Subscriber added'')
        ''Total subscribers'')"

definition call_unsubscribe :: "LogSubscriber \<Rightarrow> NotificationManager \<Rightarrow> NotificationManager" where
  "call_unsubscribe handle s = unsubscribe s (sub_id handle)"

text \<open>\<open>event.projectId\<close>: reading a property of \<open>null\<close> throws a \<open>TypeError\<close>; an
  object gives the value under the key or \<open>undefined\<close> (\<open>None\<close>); numbers, booleans,
  strings and arrays have no property of that name.\<close>

fun event_projectId :: "json \<Rightarrow> js_error + json option" where
  "event_projectId JNull = Inl TypeError"
| "event_projectId (JObj kvs) = Inr (map_of kvs ''projectId'')"
| "event_projectId _ = Inr None"

text \<open>\<open>Array.prototype.filter\<close> with the callback \<open>sub.projectId === event.projectId\<close>:
  the callback runs once per element, in order, and the first throw ends the filter.\<close>

fun matching_subscribers :: "json \<Rightarrow> LogSubscriber list \<Rightarrow> js_error + LogSubscriber list" where
  "matching_subscribers event [] = Inr []"
| "matching_subscribers event (sub # subs) =
     (case event_projectId event of
        Inl e \<Rightarrow> Inl e
      | Inr v \<Rightarrow>
          (case matching_subscribers event subs of
             Inl e \<Rightarrow> Inl e
           | Inr rest \<Rightarrow> Inr (if v = Some (JStr (sub_projectId sub)) then sub # rest else rest)))"

text \<open>\<open>matchingSubscribers.map((sub) => sub.onNotification(event).catch(...))\<close>: the
  callbacks are called in order; a callback that throws ends the \<open>map\<close>, and the
  subscribers after it are not called.  The result is the subscribers called, the thrower
  included, and the error thrown, if any.\<close>

fun invoke_callbacks :: "json \<Rightarrow> LogSubscriber list \<Rightarrow> LogSubscriber list \<times> js_error option" where
  "invoke_callbacks event [] = ([], None)"
| "invoke_callbacks event (sub # subs) =
     (case onNotification sub event of
        Throws m \<Rightarrow> ([sub], Some (Error m))
      | Resolved \<Rightarrow>
          (case invoke_callbacks event subs of (called, thrown) \<Rightarrow> (sub # called, thrown))
      | Rejected m \<Rightarrow>
          (case invoke_callbacks event subs of (called, thrown) \<Rightarrow> (sub # called, thrown)))"

text \<open>The \<open>.catch\<close> attached to each returned promise logs a rejection, after the
  handler has run to its end.\<close>

definition rejection_lines :: "json \<Rightarrow> LogSubscriber list \<Rightarrow> string list" where
  "rejection_lines event subs =
     map (\<lambda>sub. ''Error in subscriber'')
       (filter (\<lambda>sub. case onNotification sub event of Rejected m \<Rightarrow> True | _ \<Rightarrow> False) subs)"

text \<open>\<open>JSON.parse\<close> is the parameter \<open>parse\<close>: \<open>None\<close> when it throws a
  \<open>SyntaxError\<close>.  \<open>!msg.payload\<close> holds for an absent and for an empty payload.
  Whatever is thrown inside the \<open>try\<close>, by the parser, by the filter or by a callback,
  ends in the one \<open>catch\<close>, which logs a parse failure.\<close>

definition handleNotification ::
  "(string \<Rightarrow> json option) \<Rightarrow> NotificationManager \<Rightarrow> pg_notification \<Rightarrow> NotificationManager" where
  "handleNotification parse s msg =
     (if channel msg \<noteq> ''logs_new'' \<or> payload msg = None \<or> payload msg = Some [] then s
      else
        (case parse (the (payload msg)) of
           None \<Rightarrow> log_line s ''Failed to parse notification''
         | Some event \<Rightarrow>
             (case matching_subscribers event (Map_values (subscribers s)) of
                Inl e \<Rightarrow> log_line s ''Failed to parse notification''
              | Inr matchingSubscribers \<Rightarrow>
                  if length matchingSubscribers = 0 then s
                  else
                    (case invoke_callbacks event matchingSubscribers of
                       (called, thrown) \<Rightarrow>
                         s\<lparr>dispatched := dispatched s @ map (\<lambda>sub. (sub, event)) called,
                           console_log := console_log s @
                             (case thrown of
                                None \<Rightarrow> []
                              | Some e \<Rightarrow> [''Failed to parse notification'']) @
                             rejection_lines event called\<rparr>))))"

text \<open>\<open>shutdown\<close>; \<open>closed\<close> tells whether \<open>UNLISTEN\<close> and \<open>client.end()\<close> both
  succeed.\<close>

definition shutdown :: "NotificationManager \<Rightarrow> bool \<Rightarrow> NotificationManager" where
  "shutdown s closed =
     (let s1 = s\<lparr>isShuttingDown := True\<rparr>;
          s2 = (if reconnectTimer s1 \<noteq> None then s1\<lparr>reconnectTimer := None\<rparr> else s1);
          s3 = (if client s2 \<noteq> None
                then (log_line s2 (if closed then ''Client closed'' else ''Error during shutdown''))
                       \<lparr>client := None\<rparr>
                else s2)
      in s3\<lparr>subscribers := [], isConnected := False\<rparr>)"

text \<open>Everything that can happen to the manager, and a run of such happenings.\<close>

datatype manager_event =
    Initialize string connect_result
  | Subscribe LogSubscriber
  | Unsubscribe string
  | Notification pg_notification
  | ClientError
  | TimerFires connect_result
  | Shutdown bool

fun step ::
  "(string \<Rightarrow> json option) \<Rightarrow> NotificationManager \<Rightarrow> manager_event \<Rightarrow> NotificationManager" where
  "step parse s (Initialize url r) = snd (initialize s url r)"
| "step parse s (Subscribe sub) = snd (subscribe s sub)"
| "step parse s (Unsubscribe i) = unsubscribe s i"
| "step parse s (Notification msg) = handleNotification parse s msg"
| "step parse s ClientError = client_error s"
| "step parse s (TimerFires r) = timer_fires s r"
| "step parse s (Shutdown closed) = shutdown s closed"

definition run ::
  "(string \<Rightarrow> json option) \<Rightarrow> NotificationManager \<Rightarrow> manager_event list \<Rightarrow> NotificationManager" where
  "run parse s evs = foldl (step parse) s evs"


text \<open>Two worlds for the examples: one whose second \<open>pg_notify\<close> call fails, one with
  no failing call.\<close>

definition w_second_fails :: pg_world where
  "w_second_fails =
     \<lparr>notified = [], faults = [False, True], clock = (\<lambda>n. ''2024-01-01T00:00:00.000Z''),
      readings = 0, console = []\<rparr>"

definition w_no_fault :: pg_world where
  "w_no_fault =
     \<lparr>notified = [], faults = [], clock = (\<lambda>n. ''2024-01-01T00:00:00.000Z''),
      readings = 0, console = []\<rparr>"

text \<open>The events that touch the subscriber registry by themselves.\<close>

fun touches_registry :: "manager_event \<Rightarrow> bool" where
  "touches_registry (Subscribe sub) = True"
| "touches_registry (Unsubscribe i) = True"
| "touches_registry (Shutdown closed) = True"
| "touches_registry e = False"


text \<open>The registry's invariant: no key twice, and every subscriber under its own id.\<close>

definition registry_ok :: "(string \<times> LogSubscriber) list \<Rightarrow> bool" where
  "registry_ok m \<longleftrightarrow> distinct (map fst m) \<and> list_all (\<lambda>(k, v). sub_id v = k) m"

text \<open>Concrete managers, subscribers and messages for the examples.\<close>

definition listening :: NotificationManager where
  "listening = snd (initialize new_NotificationManager ''postgres://db'' Connected)"

definition subA :: LogSubscriber where
  "subA = \<lparr>sub_id = ''ws-1'', sub_projectId = ''P1'', services = None, levels = None,
            onNotification = (\<lambda>e. Resolved)\<rparr>"

definition subB :: LogSubscriber where
  "subB = \<lparr>sub_id = ''ws-2'', sub_projectId = ''P2'', services = None, levels = None,
            onNotification = (\<lambda>e. Rejected ''socket closed'')\<rparr>"

definition subA' :: LogSubscriber where
  "subA' = \<lparr>sub_id = ''ws-1'', sub_projectId = ''P2'', services = Some [''api''], levels = None,
             onNotification = (\<lambda>e. Resolved)\<rparr>"

definition two_subscribers :: NotificationManager where
  "two_subscribers = snd (subscribe (snd (subscribe listening subA)) subB)"

text \<open>A subscriber of the project \<open>P1\<close> whose callback throws, and a manager in which it
  was registered before \<open>subA\<close>, a subscriber of the same project.\<close>

definition subT :: LogSubscriber where
  "subT = \<lparr>sub_id = ''ws-0'', sub_projectId = ''P1'', services = None, levels = None,
            onNotification = (\<lambda>e. Throws ''socket gone'')\<rparr>"

definition thrower_first :: NotificationManager where
  "thrower_first = snd (subscribe (snd (subscribe listening subT)) subA)"

text \<open>A stand-in for \<open>JSON.parse\<close> that knows one payload and rejects every other
  text, the empty one included.\<close>

definition parse_P1 :: "string \<Rightarrow> json option" where
  "parse_P1 p =
     (if p = ''{\"projectId\":\"P1\"}'' then Some (JObj [(''projectId'', JStr ''P1'')]) else None)"

definition msg_P1 :: pg_notification where
  "msg_P1 = \<lparr>channel = ''logs_new'', payload = Some ''{\"projectId\":\"P1\"}''\<rparr>"

section \<open>Ingestion schemas (shared/src/schemas/index.ts)\<close>

definition LOG_LEVELS :: "string list" where
  "LOG_LEVELS = [''debug'', ''info'', ''warn'', ''error'', ''critical'']"

text \<open>\<open>z.enum(LOG_LEVELS)\<close>: the input is one of the listed strings.\<close>

definition logLevelSchema :: "string \<Rightarrow> bool" where
  "logLevelSchema l = (l \<in> set LOG_LEVELS)"

text \<open>The \<open>time\<close> of a log is a string or a \<open>Date\<close> object; \<open>TimeDate False\<close> is an
  \<open>Invalid Date\<close>, which \<open>z.date()\<close> refuses.\<close>

datatype time_input = TimeString string | TimeDate bool

text \<open>
  A log as the schema's input type has it.  \<open>level\<close> is kept a string, since the schema
  is what checks it; \<open>metadata\<close> and \<open>trace_id\<close> are optional fields whose schemas
  check nothing but the type, so every value of their type passes.
\<close>

record LogInput =
  time :: time_input
  service :: string
  level :: string
  message :: string
  metadata :: "(string \<times> json) list option"
  trace_id :: "string option"
  span_id :: "string option"

record IngestRequest =
  logs :: "LogInput list"

text \<open>The character class \<open>[a-f0-9]\<close> under the flag \<open>i\<close>: the letters match in
  either case.\<close>

definition hex_digit_ignoring_case :: "char \<Rightarrow> bool" where
  "hex_digit_ignoring_case c = (c \<in> set ''abcdef0123456789ABCDEF'')"

text \<open>\<open>/^[a-f0-9]{16}$/i\<close>: the whole string is sixteen characters of the class.\<close>

definition span_id_regex :: "string \<Rightarrow> bool" where
  "span_id_regex s = (length s = 16 \<and> list_all hex_digit_ignoring_case s)"

text \<open>\<open>z.string().datetime().or(z.date())\<close>; the library's check of a datetime string
  is the parameter \<open>datetime\<close>.\<close>

definition timeSchema :: "(string \<Rightarrow> bool) \<Rightarrow> time_input \<Rightarrow> bool" where
  "timeSchema datetime t = (case t of TimeString s \<Rightarrow> datetime s | TimeDate valid \<Rightarrow> valid)"

definition logSchema :: "(string \<Rightarrow> bool) \<Rightarrow> LogInput \<Rightarrow> bool" where
  "logSchema datetime l =
     (timeSchema datetime (time l)
      \<and> 1 \<le> length (service l) \<and> length (service l) \<le> 100
      \<and> logLevelSchema (level l)
      \<and> 1 \<le> length (message l)
      \<and> (case span_id l of None \<Rightarrow> True | Some s \<Rightarrow> span_id_regex s))"

definition ingestRequestSchema :: "(string \<Rightarrow> bool) \<Rightarrow> IngestRequest \<Rightarrow> bool" where
  "ingestRequestSchema datetime r =
     (1 \<le> length (logs r) \<and> length (logs r) \<le> 1000 \<and> list_all (logSchema datetime) (logs r))"

datatype validation_error = ZodError

text \<open>\<open>ingestRequestSchema.safeParse\<close>: the batch, or a validation error.\<close>

definition safeParse :: "(string \<Rightarrow> bool) \<Rightarrow> IngestRequest \<Rightarrow> validation_error + IngestRequest" where
  "safeParse datetime r = (if ingestRequestSchema datetime r then Inr r else Inl ZodError)"

text \<open>The pattern \<open>^[a-f0-9]{16}$\<close> as the specification words it, without a flag:
  sixteen digits or lower-case letters a to f.\<close>

definition lowercase_hex16 :: "string \<Rightarrow> bool" where
  "lowercase_hex16 s = (length s = 16 \<and> list_all (\<lambda>c. c \<in> set ''abcdef0123456789'') s)"

definition log_upper_span :: LogInput where
  "log_upper_span =
     \<lparr>time = TimeDate True, service = ''api'', level = ''error'', message = ''boom'',
      metadata = None, trace_id = None, span_id = Some ''ABCDEF0123456789''\<rparr>"

definition log_bad_time :: LogInput where
  "log_bad_time =
     \<lparr>time = TimeString ''yesterday'', service = ''api'', level = ''error'', message = ''boom'',
      metadata = None, trace_id = None, span_id = None\<rparr>"

text \<open>A datetime check for the examples: it knows one timestamp.\<close>

definition datetime_one :: "string \<Rightarrow> bool" where
  "datetime_one s = (s = ''2024-01-01T00:00:00Z'')"

section \<open>Queue connection (queue-factory.ts)\<close>

text \<open>\<open>retryStrategy\<close> of the Redis connection; \<open>times'\<close> is the number of the retry, the source's \<open>times\<close>.\<close>

definition retryStrategy :: "nat \<Rightarrow> nat" where
  "retryStrategy times' = (let maxDelay = 30000; delay = min (times' * 1000) maxDelay in delay)"

text \<open>\<open>String.prototype.includes\<close>: the argument occurs as a contiguous part.\<close>

definition String_includes :: "string \<Rightarrow> string \<Rightarrow> bool" where
  "String_includes s e = sublist e s"

definition targetErrors :: "string list" where
  "targetErrors = [''READONLY'', ''ECONNRESET'', ''ECONNREFUSED'']"

text \<open>\<open>reconnectOnError\<close>, applied to the message of the error.\<close>

definition reconnectOnError :: "string \<Rightarrow> bool" where
  "reconnectOnError err_message = list_ex (\<lambda>e. String_includes err_message e) targetErrors"


section \<open>Queue system manager (queue-factory.ts)\<close>

datatype QueueBackend = bullmq | graphile

record QueueConfig =
  backend :: QueueBackend
  redisUrl :: "string option"
  databaseUrl_config :: string

datatype redis_connection = Redis string

datatype pg_pool = Pool string

text \<open>
  Adapter objects.  Each \<open>new\<close> takes a fresh reference, so two adapters are the same
  object exactly when they are equal here.  A worker adapter holds the processor it was
  constructed with.
\<close>

datatype queue_adapter =
    BullMQQueueAdapter nat string redis_connection
  | GraphileQueueAdapter nat string pg_pool

datatype 'p worker_adapter =
    BullMQWorkerAdapter nat string 'p redis_connection
  | GraphileWorkerAdapter nat string 'p pg_pool

record 'p QueueSystemManager =
  config :: "QueueConfig option"
  redisConnection :: "redis_connection option"
  pgPool :: "pg_pool option"
  initialized :: bool
  queueCache :: "(string \<times> queue_adapter) list"
  workerCache :: "(string \<times> 'p worker_adapter) list"
  next_ref :: nat
  queue_console :: "string list"

definition new_QueueSystemManager :: "'p QueueSystemManager" where
  "new_QueueSystemManager =
     \<lparr>config = None, redisConnection = None, pgPool = None, initialized = False,
      queueCache = [], workerCache = [], next_ref = 0, queue_console = []\<rparr>"

text \<open>\<open>Map.prototype.get\<close>: the value under the key, or \<open>undefined\<close>.\<close>

definition Map_get :: "('k \<times> 'v) list \<Rightarrow> 'k \<Rightarrow> 'v option" where
  "Map_get m k = map_of m k"

text \<open>\<open>initialize\<close> of the queue system.  \<open>this.config\<close> is assigned before the check
  of the Redis URL, so it stays assigned when the check throws; \<open>!config.redisUrl\<close> holds
  for an absent and for an empty URL.\<close>

definition initializeQueueSystem ::
  "'p QueueSystemManager \<Rightarrow> QueueConfig \<Rightarrow> (js_error + unit) \<times> 'p QueueSystemManager" where
  "initializeQueueSystem s cfg =
     (if initialized s
      then (Inr (), s\<lparr>queue_console := queue_console s @ [''Already initialized'']\<rparr>)
      else
        let s1 = s\<lparr>config := Some cfg\<rparr> in
        if backend cfg = bullmq then
          (if redisUrl cfg = None \<or> redisUrl cfg = Some []
           then (Inl (Error ''Redis URL required for BullMQ backend''), s1)
           else (Inr (), s1\<lparr>redisConnection := Some (Redis (the (redisUrl cfg))),
                              initialized := True,
                              queue_console := queue_console s1 @ [''Using BullMQ (Redis) backend'']\<rparr>))
        else
          (Inr (), s1\<lparr>pgPool := Some (Pool (databaseUrl_config cfg)),
                         initialized := True,
                         queue_console := queue_console s1 @
                           [''Using graphile-worker (PostgreSQL) backend'']\<rparr>))"

definition getRedisConnection :: "'p QueueSystemManager \<Rightarrow> js_error + redis_connection" where
  "getRedisConnection s =
     (case redisConnection s of
        None \<Rightarrow> Inl (Error ''Redis connection not available'')
      | Some c \<Rightarrow> Inr c)"

definition getPgPool :: "'p QueueSystemManager \<Rightarrow> js_error + pg_pool" where
  "getPgPool s =
     (case pgPool s of
        None \<Rightarrow> Inl (Error ''PostgreSQL pool not available'')
      | Some p \<Rightarrow> Inr p)"

definition createQueue ::
  "'p QueueSystemManager \<Rightarrow> string \<Rightarrow> (js_error + queue_adapter) \<times> 'p QueueSystemManager" where
  "createQueue s name =
     (case config s of
        None \<Rightarrow> (Inl (Error ''Not initialized''), s)
      | Some cfg \<Rightarrow>
          (case Map_get (queueCache s) name of
             Some cached \<Rightarrow> (Inr cached, s)
           | None \<Rightarrow>
               (case (if backend cfg = bullmq
                      then map_sum id (BullMQQueueAdapter (next_ref s) name) (getRedisConnection s)
                      else map_sum id (GraphileQueueAdapter (next_ref s) name) (getPgPool s)) of
                  Inl e \<Rightarrow> (Inl e, s)
                | Inr queue \<Rightarrow>
                    (Inr queue,
                     s\<lparr>queueCache := Map_set (queueCache s) name queue,
                       next_ref := Suc (next_ref s)\<rparr>))))"

definition createWorker ::
  "'p QueueSystemManager \<Rightarrow> string \<Rightarrow> 'p \<Rightarrow> (js_error + 'p worker_adapter) \<times> 'p QueueSystemManager" where
  "createWorker s name processor =
     (case config s of
        None \<Rightarrow> (Inl (Error ''Not initialized''), s)
      | Some cfg \<Rightarrow>
          (case Map_get (workerCache s) name of
             Some cached \<Rightarrow> (Inr cached, s)
           | None \<Rightarrow>
               (case (if backend cfg = bullmq
                      then map_sum id (BullMQWorkerAdapter (next_ref s) name processor)
                             (getRedisConnection s)
                      else map_sum id (GraphileWorkerAdapter (next_ref s) name processor)
                             (getPgPool s)) of
                  Inl e \<Rightarrow> (Inl e, s)
                | Inr worker \<Rightarrow>
                    (Inr worker,
                     s\<lparr>workerCache := Map_set (workerCache s) name worker,
                       next_ref := Suc (next_ref s)\<rparr>))))"

text \<open>A queue system on which \<open>initialize\<close> has succeeded: the flag is set, the
  configuration is present and the connection of its backend exists.\<close>

definition initialised :: "'p QueueSystemManager \<Rightarrow> bool" where
  "initialised s \<longleftrightarrow>
     initialized s \<and>
     (case config s of
        None \<Rightarrow> False
      | Some cfg \<Rightarrow> if backend cfg = bullmq then redisConnection s \<noteq> None else pgPool s \<noteq> None)"

text \<open>Calls of the two factory functions, and a run of them.\<close>

datatype 'p factory_call = CreateQueue string | CreateWorker string 'p

fun factory_step :: "'p QueueSystemManager \<Rightarrow> 'p factory_call \<Rightarrow> 'p QueueSystemManager" where
  "factory_step s (CreateQueue name) = snd (createQueue s name)"
| "factory_step s (CreateWorker name processor) = snd (createWorker s name processor)"

definition graphile_system :: "nat QueueSystemManager" where
  "graphile_system =
     snd (initializeQueueSystem new_QueueSystemManager
            \<lparr>backend = graphile, redisUrl = None, databaseUrl_config = ''postgres://db''\<rparr>)"

section \<open>Incidents (shared constants and utilities; the correlator of the specification)\<close>

text \<open>\<open>SEVERITIES\<close> and \<open>INCIDENT_STATUSES\<close> of \<open>siem-constants.ts\<close>.\<close>

datatype Severity = Critical | High | Medium | Low | Informational

datatype IncidentStatus = StatusOpen | StatusInvestigating | StatusResolved | StatusFalsePositive

text \<open>\<open>getSeverityWeight\<close> of \<open>utils/severity.ts\<close>.\<close>

fun getSeverityWeight :: "Severity \<Rightarrow> nat" where
  "getSeverityWeight Critical = 5"
| "getSeverityWeight High = 4"
| "getSeverityWeight Medium = 3"
| "getSeverityWeight Low = 2"
| "getSeverityWeight Informational = 1"

text \<open>Modelled from the spec: the detection event of section 3 (no type of it is among
  the source files), with the service of the matched log, which the correlator unions
  into the affected services.  Times are milliseconds.\<close>

record DetectionEvent =
  event_id :: string
  event_tenant :: string
  event_project :: string
  ruleId :: string
  logId :: string
  event_severity :: Severity
  event_timestamp :: nat
  event_message :: string
  event_service :: string

text \<open>Modelled from the spec: the incident of section 3, with the rule family of its
  correlation key.  The set of affected services is a list without repetition.\<close>

record Incident =
  incident_id :: nat
  tenant :: string
  project :: string
  ruleFamily :: string
  status :: IncidentStatus
  severity :: Severity
  detectionCount :: nat
  affectedServices :: "string list"
  createdAt :: nat
  updatedAt :: nat

text \<open>Modelled from the spec: the correlation window of section 4.J, fifteen minutes.\<close>

definition CORRELATION_WINDOW_MS :: nat where
  "CORRELATION_WINDOW_MS = 15 * 60 * 1000"

text \<open>Modelled from the spec: "lift severity to max", by the weights of
  \<open>getSeverityWeight\<close>.\<close>

definition max_severity :: "Severity \<Rightarrow> Severity \<Rightarrow> Severity" where
  "max_severity a b = (if getSeverityWeight a \<ge> getSeverityWeight b then a else b)"

text \<open>Modelled from the spec: "an open Incident with the same key exists and was updated
  within the last 15 minutes" (section 4.J), at the time \<open>now\<close> at which the correlator
  receives the event.  The key is (tenant, project, rule family); the rule family of a
  rule id, "the rule id stripped of instance suffix", is the parameter \<open>family\<close>.\<close>

definition appendable :: "(string \<Rightarrow> string) \<Rightarrow> nat \<Rightarrow> DetectionEvent \<Rightarrow> Incident \<Rightarrow> bool" where
  "appendable family now e i \<longleftrightarrow>
     status i = StatusOpen \<and>
     tenant i = event_tenant e \<and> project i = event_project e \<and>
     ruleFamily i = family (ruleId e) \<and>
     now \<le> updatedAt i + CORRELATION_WINDOW_MS"

text \<open>Modelled from the spec: "append the event (increment count, union affected
  services, lift severity to max)".\<close>

definition append_event :: "nat \<Rightarrow> DetectionEvent \<Rightarrow> Incident \<Rightarrow> Incident" where
  "append_event now e i =
     i\<lparr>detectionCount := detectionCount i + 1,
       affectedServices := List.insert (event_service e) (affectedServices i),
       severity := max_severity (severity i) (event_severity e),
       updatedAt := now\<rparr>"

text \<open>Modelled from the spec: "open a new Incident with status=open, severity=event
  severity, detection count=1".\<close>

definition open_incident ::
  "(string \<Rightarrow> string) \<Rightarrow> nat \<Rightarrow> nat \<Rightarrow> DetectionEvent \<Rightarrow> Incident" where
  "open_incident family now fresh e =
     \<lparr>incident_id = fresh, tenant = event_tenant e, project = event_project e,
      ruleFamily = family (ruleId e), status = StatusOpen, severity = event_severity e,
      detectionCount = 1, affectedServices = [event_service e],
      createdAt = now, updatedAt = now\<rparr>"

text \<open>Modelled from the spec: the first incident of the store that takes the event gets
  it.\<close>

fun append_to_first ::
  "(string \<Rightarrow> string) \<Rightarrow> nat \<Rightarrow> DetectionEvent \<Rightarrow> Incident list \<Rightarrow> Incident list" where
  "append_to_first family now e [] = []"
| "append_to_first family now e (i # rest) =
     (if appendable family now e i then append_event now e i # rest
      else i # append_to_first family now e rest)"

text \<open>Modelled from the spec: the policy of the incident correlator (section 4.J): append
  to an open incident of the same key updated within the window, otherwise open a new
  incident.\<close>

definition correlate ::
  "(string \<Rightarrow> string) \<Rightarrow> nat \<Rightarrow> Incident list \<Rightarrow> DetectionEvent \<Rightarrow> Incident list" where
  "correlate family now store e =
     (if list_ex (appendable family now e) store
      then append_to_first family now e store
      else store @ [open_incident family now (length store) e])"

definition is_terminal :: "IncidentStatus \<Rightarrow> bool" where
  "is_terminal st = (st = StatusResolved \<or> st = StatusFalsePositive)"

text \<open>An event of the rule \<open>oom-crashes\<close> at service \<open>api\<close>, for the examples; the rule
  family here is the rule id.\<close>

definition oom_event :: "Severity \<Rightarrow> string \<Rightarrow> DetectionEvent" where
  "oom_event sev svc =
     \<lparr>event_id = ''e'', event_tenant = ''org'', event_project = ''P1'', ruleId = ''oom-crashes'',
      logId = ''l'', event_severity = sev, event_timestamp = 0, event_message = ''OOM'',
      event_service = svc\<rparr>"

definition minutes :: "nat \<Rightarrow> nat" where
  "minutes n = n * 60 * 1000"

definition store_after_one :: "Incident list" where
  "store_after_one = correlate (\<lambda>r. r) 0 [] (oom_event High ''api'')"

definition store_after_two :: "Incident list" where
  "store_after_two = correlate (\<lambda>r. r) (minutes 10) store_after_one (oom_event Critical ''worker'')"


section \<open>Properties of the notification publisher\<close>

lemma M_val: "MAX_LOG_IDS_PER_CHUNK = 197"
  by (simp add: MAX_LOG_IDS_PER_CHUNK_def MAX_PAYLOAD_SIZE_def BYTES_PER_LOG_ID_def)

lemma slice_append_drop: "slice xs i (i + m) @ drop (i + m) xs = drop i xs"
proof -
  have "drop (i + m) xs = drop m (drop i xs)"
    by (simp add: add.commute)
  then show ?thesis
    by (simp only: slice_def add_diff_cancel_left' append_take_drop_id)
qed

lemma chunks_from_concat: "concat (chunks_from ids i) = drop i ids"
proof (induction ids i rule: chunks_from.induct)
  case (1 ids i)
  show ?case
  proof (cases "i < length ids")
    case True
    have "concat (chunks_from ids i) =
        slice ids i (i + MAX_LOG_IDS_PER_CHUNK) @ drop (i + MAX_LOG_IDS_PER_CHUNK) ids"
      using True 1 by (subst chunks_from.simps) simp
    then show ?thesis by (simp only: slice_append_drop)
  next
    case False
    then show ?thesis by (subst chunks_from.simps) simp
  qed
qed

lemma ceil_step:
  fixes l m :: nat
  assumes "0 < l" "0 < m"
  shows "Suc ((l - m + (m - 1)) div m) = (l + (m - 1)) div m"
proof (cases "m \<le> l")
  case True
  then have "l + (m - 1) = (l - m + (m - 1)) + m" by simp
  then have "(l + (m - 1)) div m = (l - m + (m - 1)) div m + 1"
    using assms(2) by (simp only: div_add_self2)
  then show ?thesis by simp
next
  case False
  then have a: "l - m = 0" by simp
  have "m \<le> l + (m - 1)" "l + (m - 1) < 2 * m" using assms False by simp_all
  then have "(l + (m - 1)) div m = 1"
    by (metis One_nat_def div_nat_eqI mult.commute mult_1 mult_2 nat_mult_1_right numeral_2_eq_2 mult_Suc_right)
  with a assms show ?thesis by simp
qed

lemma chunks_from_length:
  "length (chunks_from ids i) = (length ids - i + (MAX_LOG_IDS_PER_CHUNK - 1)) div MAX_LOG_IDS_PER_CHUNK"
proof (induction ids i rule: chunks_from.induct)
  case (1 ids i)
  show ?case
  proof (cases "i < length ids")
    case True
    have "length (chunks_from ids i) = Suc (length (chunks_from ids (i + MAX_LOG_IDS_PER_CHUNK)))"
      using True by (subst chunks_from.simps) simp
    also have "\<dots> = Suc ((length ids - (i + MAX_LOG_IDS_PER_CHUNK) + (MAX_LOG_IDS_PER_CHUNK - 1)) div MAX_LOG_IDS_PER_CHUNK)"
      using 1 True by simp
    also have "\<dots> = (length ids - i + (MAX_LOG_IDS_PER_CHUNK - 1)) div MAX_LOG_IDS_PER_CHUNK"
      using ceil_step[of "length ids - i" MAX_LOG_IDS_PER_CHUNK] True
      by (simp add: M_val)
    finally show ?thesis .
  next
    case False
    then show ?thesis by (subst chunks_from.simps) (simp add: M_val)
  qed
qed

lemma chunks_from_nth:
  "j < length (chunks_from ids i) \<Longrightarrow>
   chunks_from ids i ! j =
     slice ids (i + j * MAX_LOG_IDS_PER_CHUNK) (i + j * MAX_LOG_IDS_PER_CHUNK + MAX_LOG_IDS_PER_CHUNK)"
proof (induction ids i arbitrary: j rule: chunks_from.induct)
  case (1 ids i)
  show ?case
  proof (cases "i < length ids")
    case True
    have eq: "chunks_from ids i =
        slice ids i (i + MAX_LOG_IDS_PER_CHUNK) # chunks_from ids (i + MAX_LOG_IDS_PER_CHUNK)"
      using True by (subst chunks_from.simps) simp
    show ?thesis
    proof (cases j)
      case 0
      then show ?thesis by (simp add: eq)
    next
      case (Suc j')
      with "1.prems" eq have "j' < length (chunks_from ids (i + MAX_LOG_IDS_PER_CHUNK))" by simp
      from "1.IH"[OF True this] Suc show ?thesis by (simp add: eq algebra_simps)
    qed
  next
    case False
    with "1.prems" show ?thesis by (subst (asm) chunks_from.simps) simp
  qed
qed

lemma slice_length_le: "length (slice xs i (i + m)) \<le> m"
  by (simp add: slice_def)

lemma slice_nonempty: "i < length xs \<Longrightarrow> 0 < m \<Longrightarrow> slice xs i (i + m) \<noteq> []"
  by (simp add: slice_def)

lemma accepted_calls_le: "accepted_calls fs n \<le> n"
  by (induction fs n rule: accepted_calls.induct) auto

lemma accepted_calls_no_fault: "True \<notin> set fs \<Longrightarrow> accepted_calls fs n = n"
  by (induction fs n rule: accepted_calls.induct) auto

lemma accepted_calls_Nil [simp]: "accepted_calls [] n = n"
  by (cases n) simp_all

lemma logs_new_messages_logIds:
  "map (logIds \<circ> snd) (logs_new_messages clk n pid cs) = cs"
  by (induction cs arbitrary: n) simp_all

lemma logs_new_messages_channel:
  "m \<in> set (logs_new_messages clk n pid cs) \<Longrightarrow> fst m = ''logs_new'' \<and> projectId (snd m) = pid"
  by (induction cs arbitrary: n) auto

lemma send_chunks_notified:
  "notified (snd (send_chunks w pid ids i)) =
     notified w @ logs_new_messages (clock w) (readings w) pid
       (take (accepted_calls (faults w) (length (chunks_from ids i))) (chunks_from ids i))"
proof (induction w pid ids i rule: send_chunks.induct)
  case (1 w pid ids i)
  show ?case
  proof (cases "i < length ids")
    case False
    then show ?thesis
      by (subst send_chunks.simps, subst (1 2) chunks_from.simps) simp
  next
    case True
    let ?c = "slice ids i (i + MAX_LOG_IDS_PER_CHUNK)"
    have ch: "chunks_from ids i = ?c # chunks_from ids (i + MAX_LOG_IDS_PER_CHUNK)"
      using True by (subst chunks_from.simps) simp
    show ?thesis
    proof (cases "sendNotification w pid ?c")
      case (Pair r w')
      show ?thesis
      proof (cases r)
        case (Inl e)
        with Pair have "faults w \<noteq> [] \<and> hd (faults w) \<and> notified w' = notified w"
          by (auto simp: sendNotification_def Let_def split: list.splits if_splits)
        then obtain fs where "faults w = True # fs" "notified w' = notified w"
          by (cases "faults w") auto
        with True Pair Inl show ?thesis
          by (subst send_chunks.simps) (simp add: ch)
      next
        case (Inr u)
        with Pair have w':
          "notified w' = notified w @
             [(''logs_new'', \<lparr>projectId = pid, logIds = ?c, timestamp = clock w (readings w)\<rparr>)]"
          "clock w' = clock w" "readings w' = Suc (readings w)"
          "faults w' = tl (faults w)" "faults w = [] \<or> \<not> hd (faults w)"
          by (auto simp: sendNotification_def Let_def split: list.splits if_splits)
        have ih: "notified (snd (send_chunks w' pid ids (i + MAX_LOG_IDS_PER_CHUNK))) =
           notified w' @ logs_new_messages (clock w') (readings w') pid
             (take (accepted_calls (faults w') (length (chunks_from ids (i + MAX_LOG_IDS_PER_CHUNK))))
                (chunks_from ids (i + MAX_LOG_IDS_PER_CHUNK)))"
          using "1.IH"[OF True Pair[symmetric] Inr] .
        have acc: "accepted_calls (faults w) (Suc n) = Suc (accepted_calls (faults w') n)" for n
          using w'(4,5) by (cases "faults w") auto
        have "send_chunks w pid ids i = send_chunks w' pid ids (i + MAX_LOG_IDS_PER_CHUNK)"
          using True Pair Inr by (subst send_chunks.simps) simp
        then show ?thesis
          by (simp add: ih ch w'(1,2,3) acc)
      qed
    qed
  qed
qed

lemma send_chunks_result:
  "fst (send_chunks w pid ids i) = Inr () \<longleftrightarrow>
     accepted_calls (faults w) (length (chunks_from ids i)) = length (chunks_from ids i)"
proof (induction w pid ids i rule: send_chunks.induct)
  case (1 w pid ids i)
  show ?case
  proof (cases "i < length ids")
    case False
    then show ?thesis
      by (subst send_chunks.simps, subst (1 2) chunks_from.simps) simp
  next
    case True
    let ?c = "slice ids i (i + MAX_LOG_IDS_PER_CHUNK)"
    have ch: "chunks_from ids i = ?c # chunks_from ids (i + MAX_LOG_IDS_PER_CHUNK)"
      using True by (subst chunks_from.simps) simp
    show ?thesis
    proof (cases "sendNotification w pid ?c")
      case (Pair r w')
      show ?thesis
      proof (cases r)
        case (Inl e)
        with Pair have "faults w \<noteq> [] \<and> hd (faults w)"
          by (auto simp: sendNotification_def Let_def split: list.splits if_splits)
        then obtain fs where "faults w = True # fs"
          by (cases "faults w") auto
        with True Pair Inl show ?thesis
          by (subst send_chunks.simps) (simp add: ch)
      next
        case (Inr u)
        with Pair have w': "faults w' = tl (faults w)" "faults w = [] \<or> \<not> hd (faults w)"
          by (auto simp: sendNotification_def Let_def split: list.splits if_splits)
        have acc: "accepted_calls (faults w) (Suc n) = Suc (accepted_calls (faults w') n)" for n
          using w' by (cases "faults w") auto
        have "send_chunks w pid ids i = send_chunks w' pid ids (i + MAX_LOG_IDS_PER_CHUNK)"
          using True Pair Inr by (subst send_chunks.simps) simp
        then show ?thesis
          using "1.IH"[OF True Pair[symmetric] Inr] by (simp add: ch acc)
      qed
    qed
  qed
qed

lemma chunks_from_single:
  "0 < length ids \<Longrightarrow> length ids \<le> MAX_LOG_IDS_PER_CHUNK \<Longrightarrow> chunks_from ids 0 = [ids]"
  by (subst chunks_from.simps, subst chunks_from.simps) (simp add: slice_def)

lemma sendNotification_notified:
  "notified (snd (sendNotification w pid c)) =
     notified w @ logs_new_messages (clock w) (readings w) pid
       (take (accepted_calls (faults w) 1) [c])"
  by (cases "faults w") (auto simp: sendNotification_def Let_def)

lemma publish_notified:
  "notified (snd (publishLogIngestion w pid ids)) =
     notified w @ logs_new_messages (clock w) (readings w) pid
       (take (accepted_calls (faults w) (length (chunks_from ids 0))) (chunks_from ids 0))"
proof (cases "length ids = 0")
  case True
  then show ?thesis
    by (subst (1 2) chunks_from.simps) (simp add: publishLogIngestion_def)
next
  case False
  show ?thesis
  proof (cases "length ids > MAX_LOG_IDS_PER_CHUNK")
    case True
    let ?w = "w\<lparr>console := console w @ [''Large batch, chunking'']\<rparr>"
    have "notified (snd (publishLogIngestion w pid ids)) = notified (snd (send_chunks ?w pid ids 0))"
      using True False by (simp add: publishLogIngestion_def split: prod.splits sum.splits)
    then show ?thesis
      by (simp add: send_chunks_notified)
  next
    case notlarge: False
    have "notified (snd (publishLogIngestion w pid ids)) = notified (snd (sendNotification w pid ids))"
      using notlarge False by (simp add: publishLogIngestion_def split: prod.splits sum.splits)
    then show ?thesis
      using chunks_from_single[of ids] False notlarge
      by (simp add: sendNotification_notified)
  qed
qed

lemma chunks_from_198:
  "chunks_from (replicate 197 ''a'' @ [''b'']) 0 = [replicate 197 ''a'', [''b'']]"
  by (subst chunks_from.simps, subst chunks_from.simps, subst chunks_from.simps)
     (simp add: slice_def M_val)

lemma logs_new_messages_length: "length (logs_new_messages clk n pid cs) = length cs"
  by (induction cs arbitrary: n) simp_all

text \<open>
  What \<open>publishLogIngestion\<close> emits whatever the database does: the first \<open>k\<close> chunks
  of the id list, where \<open>k\<close> counts the \<open>pg_notify\<close> calls accepted before the first
  failing one.
\<close>

lemma publishLogIngestion_emits_prefix:
  "\<exists>k \<le> length (chunks_from ids 0).
     notified (snd (publishLogIngestion w pid ids)) =
       notified w @ logs_new_messages (clock w) (readings w) pid (take k (chunks_from ids 0))"
  using publish_notified[of w pid ids] accepted_calls_le by blast

text \<open>
  Claim C1.  Let no \<open>pg_notify\<close> call fail.  Then for every list of \<open>n\<close> log ids (the
  empty list included, which has no chunk) the notifications that
  \<open>publishLogIngestion\<close> adds are exactly \<open>\<lceil>n / 197\<rceil>\<close>, which on natural numbers is
  \<open>(n + 196) div 197\<close>, where 197 is \<open>MAX_LOG_IDS_PER_CHUNK\<close>, the floor of 7900 / 40.
  Each is on the channel \<open>logs_new\<close>, for the given project.  Their \<open>logIds\<close> arrays,
  in the order of emission, are the chunks \<open>cs\<close>: the \<open>j\<close>-th is the slice of the input
  from \<open>197 j\<close> to \<open>197 j + 197\<close>, not empty and of at most 197 ids, and the chunks
  concatenated give the input list.
\<close>

theorem publishLogIngestion_chunks:
  assumes "True \<notin> set (faults w)"
  shows "\<exists>new cs. notified (snd (publishLogIngestion w pid ids)) = notified w @ new
      \<and> length new = (length ids + 196) div 197
      \<and> MAX_LOG_IDS_PER_CHUNK = 197 \<and> MAX_PAYLOAD_SIZE div BYTES_PER_LOG_ID = 197
      \<and> (\<forall>m \<in> set new. fst m = ''logs_new'' \<and> projectId (snd m) = pid)
      \<and> map (logIds \<circ> snd) new = cs
      \<and> (\<forall>j < length cs.
            cs ! j = slice ids (197 * j) (197 * j + 197) \<and> cs ! j \<noteq> [] \<and> length (cs ! j) \<le> 197)
      \<and> concat cs = ids"
proof -
  let ?cs = "chunks_from ids 0"
  let ?new = "logs_new_messages (clock w) (readings w) pid ?cs"
  have k: "accepted_calls (faults w) (length ?cs) = length ?cs"
    using assms by (rule accepted_calls_no_fault)
  have a: "notified (snd (publishLogIngestion w pid ids)) = notified w @ ?new"
    using publish_notified[of w pid ids] by (simp add: k)
  have len: "length ?cs = (length ids + 196) div 197"
    by (simp add: chunks_from_length M_val)
  have b: "length ?new = (length ids + 196) div 197"
    by (simp add: logs_new_messages_length len)
  have c: "MAX_PAYLOAD_SIZE div BYTES_PER_LOG_ID = 197"
    by (simp add: MAX_PAYLOAD_SIZE_def BYTES_PER_LOG_ID_def)
  have d: "\<forall>m \<in> set ?new. fst m = ''logs_new'' \<and> projectId (snd m) = pid"
    using logs_new_messages_channel by blast
  have e: "map (logIds \<circ> snd) ?new = ?cs"
    by (rule logs_new_messages_logIds)
  have nth: "?cs ! j = slice ids (197 * j) (197 * j + 197) \<and> ?cs ! j \<noteq> [] \<and>
      length (?cs ! j) \<le> 197" if j: "j < length ?cs" for j
  proof -
    have s: "?cs ! j = slice ids (197 * j) (197 * j + 197)"
      using chunks_from_nth[OF j] by (simp add: M_val mult.commute)
    have "j < (length ids + 196) div 197"
      using j len by simp
    then have "197 * j < length ids"
      by simp
    then have "slice ids (197 * j) (197 * j + 197) \<noteq> []"
      by (rule slice_nonempty) simp
    with s slice_length_le[of ids "197 * j" 197] show ?thesis
      by simp
  qed
  have f: "\<forall>j < length ?cs.
      ?cs ! j = slice ids (197 * j) (197 * j + 197) \<and> ?cs ! j \<noteq> [] \<and> length (?cs ! j) \<le> 197"
    using nth by blast
  have g: "concat ?cs = ids"
    by (simp add: chunks_from_concat)
  from a b M_val c d e f g show ?thesis
    by blast
qed

theorem publishLogIngestion_chunks_witness:
  "notified (snd (publishLogIngestion w_no_fault ''p'' (replicate 197 ''a'' @ [''b'']))) =
     [(''logs_new'', \<lparr>projectId = ''p'', logIds = replicate 197 ''a'',
                       timestamp = ''2024-01-01T00:00:00.000Z''\<rparr>),
      (''logs_new'', \<lparr>projectId = ''p'', logIds = [''b''],
                       timestamp = ''2024-01-01T00:00:00.000Z''\<rparr>)]
   \<and> True \<notin> set (faults w_no_fault)
   \<and> (length (replicate 197 ''a'' @ [''b'']) + 196) div 197 = 2"
proof -
  have nf: "True \<notin> set (faults w_no_fault)"
    by (simp add: w_no_fault_def)
  obtain new cs where n:
    "notified (snd (publishLogIngestion w_no_fault ''p'' (replicate 197 ''a'' @ [''b'']))) =
       notified w_no_fault @ new"
    "length new = (length (replicate 197 ''a'' @ [''b'']) + 196) div 197"
    using publishLogIngestion_chunks[OF nf, of "''p''" "replicate 197 ''a'' @ [''b'']"]
    by blast
  have v: "notified (snd (publishLogIngestion w_no_fault ''p'' (replicate 197 ''a'' @ [''b'']))) =
     [(''logs_new'', \<lparr>projectId = ''p'', logIds = replicate 197 ''a'',
                       timestamp = ''2024-01-01T00:00:00.000Z''\<rparr>),
      (''logs_new'', \<lparr>projectId = ''p'', logIds = [''b''],
                       timestamp = ''2024-01-01T00:00:00.000Z''\<rparr>)]"
    by (simp add: publish_notified chunks_from_198 w_no_fault_def)
  have "length new = 2"
    using n v by (simp add: w_no_fault_def)
  with n(2) have "(length (replicate 197 ''a'' @ [''b'']) + 196) div 197 = 2"
    by (simp only:)
  with nf v show ?thesis
    by blast
qed

lemma sendNotification_console [simp]: "console (snd (sendNotification w pid c)) = console w"
  by (auto simp: sendNotification_def Let_def split: list.splits)

lemma send_chunks_console [simp]: "console (snd (send_chunks w pid ids i)) = console w"
proof (induction w pid ids i rule: send_chunks.induct)
  case (1 w pid ids i)
  show ?case
  proof (cases "i < length ids")
    case False
    then show ?thesis by (subst send_chunks.simps) simp
  next
    case True
    obtain r w' where p: "sendNotification w pid (slice ids i (i + MAX_LOG_IDS_PER_CHUNK)) = (r, w')"
      by (cases "sendNotification w pid (slice ids i (i + MAX_LOG_IDS_PER_CHUNK))")
    have c: "console w' = console w"
      using sendNotification_console[of w pid "slice ids i (i + MAX_LOG_IDS_PER_CHUNK)"] p by simp
    show ?thesis
    proof (cases r)
      case (Inl e)
      with True p c show ?thesis by (subst send_chunks.simps) simp
    next
      case (Inr u)
      with True p c "1.IH"[OF True p[symmetric] Inr] show ?thesis
        by (subst send_chunks.simps) simp
    qed
  qed
qed

lemma sendNotification_result:
  "fst (sendNotification w pid c) = Inr () \<longleftrightarrow> accepted_calls (faults w) 1 = 1"
  by (cases "faults w") (auto simp: sendNotification_def Let_def)

lemma publish_failure_logged:
  assumes "accepted_calls (faults w) (length (chunks_from ids 0)) < length (chunks_from ids 0)"
  shows "console (snd (publishLogIngestion w pid ids)) =
     (if length ids > MAX_LOG_IDS_PER_CHUNK then console w @ [''Large batch, chunking'']
      else console w) @ [''Failed to publish notification'']"
proof -
  from assms have ne: "length ids \<noteq> 0"
    by (subst (asm) (1 2) chunks_from.simps) auto
  show ?thesis
  proof (cases "length ids > MAX_LOG_IDS_PER_CHUNK")
    case True
    let ?w = "w\<lparr>console := console w @ [''Large batch, chunking'']\<rparr>"
    have "fst (send_chunks ?w pid ids 0) \<noteq> Inr ()"
      using assms by (simp add: send_chunks_result)
    then obtain e w' where r: "send_chunks ?w pid ids 0 = (Inl e, w')"
      by (cases "send_chunks ?w pid ids 0"; cases "fst (send_chunks ?w pid ids 0)") auto
    have "console w' = console ?w"
      using send_chunks_console[of ?w pid ids 0] r by simp
    with True ne r show ?thesis
      by (simp add: publishLogIngestion_def)
  next
    case False
    with ne have single: "chunks_from ids 0 = [ids]"
      by (simp add: chunks_from_single)
    have "fst (sendNotification w pid ids) \<noteq> Inr ()"
      using assms single by (simp add: sendNotification_result)
    then obtain e w' where r: "sendNotification w pid ids = (Inl e, w')"
      by (cases "sendNotification w pid ids"; cases "fst (sendNotification w pid ids)") auto
    have "console w' = console w"
      using sendNotification_console[of w pid ids] r by simp
    with False ne r show ?thesis
      by (simp add: publishLogIngestion_def)
  qed
qed

text \<open>
  Claim C6.  Whatever the database does, \<open>publishLogIngestion\<close> returns normally, for
  every project and every list of ids: its result is never an error.  When a
  \<open>pg_notify\<close> call fails (fewer calls are accepted than there are chunks), the error is
  caught inside the function and written to the console, as the last line.
\<close>

theorem publishLogIngestion_never_throws:
  "fst (publishLogIngestion w pid ids) = Inr ()
   \<and> (accepted_calls (faults w) (length (chunks_from ids 0)) < length (chunks_from ids 0) \<longrightarrow>
        console (snd (publishLogIngestion w pid ids)) =
          (if length ids > MAX_LOG_IDS_PER_CHUNK then console w @ [''Large batch, chunking'']
           else console w) @ [''Failed to publish notification''])"
  using publish_failure_logged[of w ids pid]
  by (simp add: publishLogIngestion_def split: prod.splits sum.splits)

theorem publishLogIngestion_never_throws_witness:
  "fst (publishLogIngestion w_second_fails ''p'' (replicate 197 ''a'' @ [''b''])) = Inr ()
   \<and> console (snd (publishLogIngestion w_second_fails ''p'' (replicate 197 ''a'' @ [''b'']))) =
       [''Large batch, chunking'', ''Failed to publish notification'']"
  using publishLogIngestion_never_throws[of w_second_fails "''p''" "replicate 197 ''a'' @ [''b'']"]
  by (simp add: chunks_from_198 w_second_fails_def M_val)

section \<open>Properties of the notification manager\<close>

subsection \<open>Dispatch\<close>

lemma matching_subscribers_null:
  "matching_subscribers JNull subs = (if subs = [] then Inr [] else Inl TypeError)"
  by (cases subs) simp_all

lemma matching_subscribers_filter:
  "event_projectId ev = Inr v \<Longrightarrow>
   matching_subscribers ev subs = Inr (filter (\<lambda>sub. v = Some (JStr (sub_projectId sub))) subs)"
  by (induction subs) simp_all

lemma event_projectId_cases:
  "event_projectId ev = Inl TypeError \<and> ev = JNull \<or> (\<exists>v. event_projectId ev = Inr v)"
  by (cases ev) simp_all

lemma invoke_callbacks_prefix: "prefix (fst (invoke_callbacks ev subs)) subs"
  by (induction subs) (auto split: callback_outcome.splits prod.splits)

lemma invoke_callbacks_no_throw:
  "\<forall>sub \<in> set subs. \<forall>m. onNotification sub ev \<noteq> Throws m \<Longrightarrow>
   invoke_callbacks ev subs = (subs, None)"
  by (induction subs) (auto split: callback_outcome.splits)

lemma handleNotification_other_channel:
  "channel msg \<noteq> ''logs_new'' \<Longrightarrow> dispatched (handleNotification parse s msg) = dispatched s"
  by (simp add: handleNotification_def)

lemma handleNotification_no_event:
  assumes "parse [] = None" "Option.bind (payload msg) parse = None"
  shows "dispatched (handleNotification parse s msg) = dispatched s"
proof (cases "payload msg")
  case None
  then show ?thesis by (simp add: handleNotification_def)
next
  case (Some p)
  with assms have "parse p = None" by simp
  with Some show ?thesis by (simp add: handleNotification_def log_line_def)
qed

lemma handleNotification_event:
  assumes "parse [] = None" "channel msg = ''logs_new''" "Option.bind (payload msg) parse = Some ev"
  shows "dispatched (handleNotification parse s msg) =
     dispatched s @ map (\<lambda>sub. (sub, ev))
       (fst (invoke_callbacks ev
          (filter (\<lambda>sub. event_projectId ev = Inr (Some (JStr (sub_projectId sub))))
             (Map_values (subscribers s)))))"
proof -
  from assms(3) obtain p where p: "payload msg = Some p" "parse p = Some ev"
    by (cases "payload msg") auto
  with assms(1) have ne: "p \<noteq> []" by auto
  consider (null) "ev = JNull" | (val) v where "event_projectId ev = Inr v"
    using event_projectId_cases[of ev] by blast
  then show ?thesis
  proof cases
    case null
    with p ne assms(2) show ?thesis
      by (simp add: handleNotification_def matching_subscribers_null log_line_def)
  next
    case val
    let ?m = "filter (\<lambda>sub. v = Some (JStr (sub_projectId sub))) (Map_values (subscribers s))"
    have m: "matching_subscribers ev (Map_values (subscribers s)) = Inr ?m"
      using val by (rule matching_subscribers_filter)
    have "dispatched (handleNotification parse s msg) =
        dispatched s @ map (\<lambda>sub. (sub, ev)) (fst (invoke_callbacks ev ?m))"
    proof (cases "?m = []")
      case True
      with p ne assms(2) m show ?thesis
        by (simp add: handleNotification_def)
    next
      case False
      obtain called thrown where c: "invoke_callbacks ev ?m = (called, thrown)"
        by (cases "invoke_callbacks ev ?m")
      with False p ne assms(2) m show ?thesis
        by (simp add: handleNotification_def)
    qed
    then show ?thesis
      by (simp add: val)
  qed
qed

text \<open>
  Claim C2, as far as the code keeps it.  \<open>JSON.parse\<close> rejects the empty text.  The
  callback invocations that one message adds are the list \<open>D\<close>.  Whoever is invoked is
  a registered subscriber whose \<open>projectId\<close> is the string that is the event's
  \<open>projectId\<close>, on a \<open>logs_new\<close> message whose payload is present and parses to the
  event: a message on another channel or with a payload that does not parse invokes
  nobody, and a subscriber of another project is never invoked.  When no callback of
  the registry throws, every such subscriber is invoked.  When a callback throws, the
  matching subscribers after it are not invoked, against the claim.
\<close>

theorem handleNotification_invokes:
  assumes "parse [] = None"
  shows "\<exists>D. dispatched (handleNotification parse s msg) = dispatched s @ D \<and>
           (\<forall>sub ev. (sub, ev) \<in> set D \<longrightarrow>
              sub \<in> set (Map_values (subscribers s)) \<and>
              channel msg = ''logs_new'' \<and>
              Option.bind (payload msg) parse = Some ev \<and>
              event_projectId ev = Inr (Some (JStr (sub_projectId sub)))) \<and>
           ((\<forall>sub \<in> set (Map_values (subscribers s)). \<forall>ev m. onNotification sub ev \<noteq> Throws m) \<longrightarrow>
              (\<forall>sub ev.
                 sub \<in> set (Map_values (subscribers s)) \<and>
                 channel msg = ''logs_new'' \<and>
                 Option.bind (payload msg) parse = Some ev \<and>
                 event_projectId ev = Inr (Some (JStr (sub_projectId sub))) \<longrightarrow>
                 (sub, ev) \<in> set D))"
proof (cases "channel msg = ''logs_new''")
  case False
  then have "dispatched (handleNotification parse s msg) = dispatched s @ []"
    by (simp add: handleNotification_other_channel)
  with False show ?thesis
    by (intro exI[of _ "[]"]) simp
next
  case True
  show ?thesis
  proof (cases "Option.bind (payload msg) parse")
    case None
    then have "dispatched (handleNotification parse s msg) = dispatched s @ []"
      using assms by (simp add: handleNotification_no_event)
    with None show ?thesis
      by (intro exI[of _ "[]"]) simp
  next
    case (Some ev)
    let ?m = "filter (\<lambda>sub. event_projectId ev = Inr (Some (JStr (sub_projectId sub))))
          (Map_values (subscribers s))"
    let ?D = "map (\<lambda>sub. (sub, ev)) (fst (invoke_callbacks ev ?m))"
    have a: "dispatched (handleNotification parse s msg) = dispatched s @ ?D"
      using assms True Some by (rule handleNotification_event)
    have sub: "set (fst (invoke_callbacks ev ?m)) \<subseteq> set ?m"
      using invoke_callbacks_prefix[of ev ?m] by (rule set_mono_prefix)
    have b: "(sub, ev') \<in> set ?D \<longrightarrow>
              sub \<in> set (Map_values (subscribers s)) \<and>
              channel msg = ''logs_new'' \<and>
              Option.bind (payload msg) parse = Some ev' \<and>
              event_projectId ev' = Inr (Some (JStr (sub_projectId sub)))" for sub ev'
      using True Some sub by auto
    have c: "(\<forall>sub \<in> set (Map_values (subscribers s)). \<forall>ev m. onNotification sub ev \<noteq> Throws m) \<longrightarrow>
              (\<forall>sub ev'.
                 sub \<in> set (Map_values (subscribers s)) \<and>
                 channel msg = ''logs_new'' \<and>
                 Option.bind (payload msg) parse = Some ev' \<and>
                 event_projectId ev' = Inr (Some (JStr (sub_projectId sub))) \<longrightarrow>
                 (sub, ev') \<in> set ?D)"
    proof
      assume nt: "\<forall>sub \<in> set (Map_values (subscribers s)). \<forall>ev m. onNotification sub ev \<noteq> Throws m"
      then have "\<forall>sub \<in> set ?m. \<forall>m. onNotification sub ev \<noteq> Throws m"
        by auto
      then have "invoke_callbacks ev ?m = (?m, None)"
        by (rule invoke_callbacks_no_throw)
      then have D: "?D = map (\<lambda>sub. (sub, ev)) ?m"
        by simp
      show "\<forall>sub ev'.
                 sub \<in> set (Map_values (subscribers s)) \<and>
                 channel msg = ''logs_new'' \<and>
                 Option.bind (payload msg) parse = Some ev' \<and>
                 event_projectId ev' = Inr (Some (JStr (sub_projectId sub))) \<longrightarrow>
                 (sub, ev') \<in> set ?D"
      proof (intro allI impI)
        fix sub ev'
        assume h: "sub \<in> set (Map_values (subscribers s)) \<and>
                 channel msg = ''logs_new'' \<and>
                 Option.bind (payload msg) parse = Some ev' \<and>
                 event_projectId ev' = Inr (Some (JStr (sub_projectId sub)))"
        with Some have e: "ev' = ev" by simp
        with h have "sub \<in> set ?m" by simp
        then have "(sub, ev) \<in> set (map (\<lambda>sub. (sub, ev)) ?m)"
          by (rule imageI[of sub "set ?m" "\<lambda>sub. (sub, ev)", simplified set_map[symmetric]])
        then show "(sub, ev') \<in> set ?D"
          by (simp only: D e)
      qed
    qed
    from a b c show ?thesis by blast
  qed
qed

lemma two_subscribers_fields:
  "subscribers two_subscribers = [(''ws-1'', subA), (''ws-2'', subB)]"
  "dispatched two_subscribers = []"
  by (simp_all add: two_subscribers_def subscribe_def listening_def initialize_def
        new_NotificationManager_def connect_def Let_def log_line_def emit_def Map_set_def
        subA_def subB_def)

lemma thrower_first_fields:
  "subscribers thrower_first = [(''ws-0'', subT), (''ws-1'', subA)]"
  "dispatched thrower_first = []"
  by (simp_all add: thrower_first_def subscribe_def listening_def initialize_def
        new_NotificationManager_def connect_def Let_def log_line_def emit_def Map_set_def
        subA_def subT_def)

text \<open>
  Claim C2 at an input where the code departs from it.  The registry holds \<open>subT\<close> and then
  \<open>subA\<close>, both of the project \<open>P1\<close>; a message on \<open>logs_new\<close> whose payload parses to
  an event of \<open>P1\<close> arrives.  \<open>subA\<close> meets every condition of the claim, yet it is not
  invoked: the callback of \<open>subT\<close> throws, the \<open>map\<close> over the matching subscribers
  ends there, and the only invocation is that of \<open>subT\<close>.  The throw is logged as a
  failure to parse the notification.  In the registry of \<open>two_subscribers\<close>, where no
  callback throws, the same message does invoke \<open>subA\<close>.
\<close>

theorem handleNotification_invokes_witness:
  "parse_P1 [] = None
   \<and> Map_values (subscribers thrower_first) = [subT, subA]
   \<and> channel msg_P1 = ''logs_new''
   \<and> Option.bind (payload msg_P1) parse_P1 = Some (JObj [(''projectId'', JStr ''P1'')])
   \<and> event_projectId (JObj [(''projectId'', JStr ''P1'')]) = Inr (Some (JStr (sub_projectId subA)))
   \<and> dispatched (handleNotification parse_P1 thrower_first msg_P1) =
       [(subT, JObj [(''projectId'', JStr ''P1'')])]
   \<and> console_log (handleNotification parse_P1 thrower_first msg_P1) =
       console_log thrower_first @ [''Failed to parse notification'']
   \<and> (subA, JObj [(''projectId'', JStr ''P1'')]) \<in>
       set (dispatched (handleNotification parse_P1 two_subscribers msg_P1))"
proof -
  have n: "parse_P1 [] = None"
    by (simp add: parse_P1_def)
  have v: "Map_values (subscribers thrower_first) = [subT, subA]"
    by (simp add: thrower_first_fields Map_values_def)
  have p: "Option.bind (payload msg_P1) parse_P1 = Some (JObj [(''projectId'', JStr ''P1'')])"
    by (simp add: msg_P1_def parse_P1_def)
  have m: "matching_subscribers (JObj [(''projectId'', JStr ''P1'')]) [subT, subA] = Inr [subT, subA]"
    by (simp add: subT_def subA_def)
  have i: "invoke_callbacks (JObj [(''projectId'', JStr ''P1'')]) [subT, subA] =
      ([subT], Some (Error ''socket gone''))"
    by (simp add: subT_def)
  have r: "rejection_lines (JObj [(''projectId'', JStr ''P1'')]) [subT] = []"
    by (simp add: rejection_lines_def subT_def)
  have h: "handleNotification parse_P1 thrower_first msg_P1 =
      thrower_first\<lparr>dispatched := dispatched thrower_first @ [(subT, JObj [(''projectId'', JStr ''P1'')])],
        console_log := console_log thrower_first @ [''Failed to parse notification'']\<rparr>"
    by (simp add: handleNotification_def msg_P1_def parse_P1_def v m i r
        del: matching_subscribers.simps invoke_callbacks.simps)
  have c: "channel msg_P1 = ''logs_new''"
    by (simp add: msg_P1_def)
  have e: "event_projectId (JObj [(''projectId'', JStr ''P1'')]) =
      Inr (Some (JStr (sub_projectId subA)))"
    by (simp add: subA_def)
  have d: "dispatched (handleNotification parse_P1 thrower_first msg_P1) =
       [(subT, JObj [(''projectId'', JStr ''P1'')])]"
    by (simp add: h thrower_first_fields)
  have l: "console_log (handleNotification parse_P1 thrower_first msg_P1) =
       console_log thrower_first @ [''Failed to parse notification'']"
    by (simp add: h)
  have nt: "\<forall>sub \<in> set (Map_values (subscribers two_subscribers)).
      \<forall>ev m. onNotification sub ev \<noteq> Throws m"
    by (simp add: two_subscribers_fields Map_values_def subA_def subB_def)
  have reg: "subA \<in> set (Map_values (subscribers two_subscribers))"
    by (simp add: two_subscribers_fields Map_values_def)
  obtain D where D: "dispatched (handleNotification parse_P1 two_subscribers msg_P1) =
        dispatched two_subscribers @ D"
    and all: "\<And>sub ev.
        sub \<in> set (Map_values (subscribers two_subscribers)) \<and>
        channel msg_P1 = ''logs_new'' \<and>
        Option.bind (payload msg_P1) parse_P1 = Some ev \<and>
        event_projectId ev = Inr (Some (JStr (sub_projectId sub))) \<Longrightarrow> (sub, ev) \<in> set D"
    using handleNotification_invokes[of parse_P1 two_subscribers msg_P1] n nt by blast
  have "(subA, JObj [(''projectId'', JStr ''P1'')]) \<in> set D"
    using reg c p e by (intro all) blast
  then have t: "(subA, JObj [(''projectId'', JStr ''P1'')]) \<in>
       set (dispatched (handleNotification parse_P1 two_subscribers msg_P1))"
    by (simp add: D)
  from n v c p e d l t show ?thesis
    by blast
qed

subsection \<open>Reconnecting\<close>

lemma scheduleReconnect_fields [simp]:
  "subscribers (scheduleReconnect s) = subscribers s"
  "emitted (scheduleReconnect s) = emitted s"
  "isShuttingDown (scheduleReconnect s) = isShuttingDown s"
  "databaseUrl (scheduleReconnect s) = databaseUrl s"
  "maxReconnectAttempts (scheduleReconnect s) = maxReconnectAttempts s"
  "dispatched (scheduleReconnect s) = dispatched s"
  by (simp_all add: scheduleReconnect_def Let_def log_line_def)







lemma listening_fields:
  "\<not> isShuttingDown listening" "reconnectTimer listening = None" "reconnectAttempts listening = 0"
  "maxReconnectAttempts listening = 10" "databaseUrl listening = Some ''postgres://db''"
  "emitted listening = [''connected'']" "subscribers listening = []"
  by (simp_all add: listening_def initialize_def new_NotificationManager_def connect_def
        Let_def log_line_def emit_def)



subsection \<open>The subscriber registry\<close>

lemma connect_subscribers [simp]: "subscribers (snd (connect s r)) = subscribers s"
  by (cases r) (auto simp: connect_def Let_def log_line_def emit_def split: option.splits if_splits)

lemma handleDisconnect_subscribers [simp]: "subscribers (handleDisconnect s) = subscribers s"
  by (simp add: handleDisconnect_def Let_def log_line_def emit_def)

lemma client_error_subscribers [simp]: "subscribers (client_error s) = subscribers s"
  by (simp add: client_error_def log_line_def)

lemma timer_fires_subscribers [simp]: "subscribers (timer_fires s r) = subscribers s"
proof (cases "reconnectTimer s")
  case None
  then show ?thesis by (simp add: timer_fires_def)
next
  case (Some d)
  obtain res s' where c: "connect (s\<lparr>reconnectTimer := None\<rparr>) r = (res, s')"
    by (cases "connect (s\<lparr>reconnectTimer := None\<rparr>) r")
  have "subscribers s' = subscribers s"
    using connect_subscribers[of "s\<lparr>reconnectTimer := None\<rparr>" r] c by simp
  with Some c show ?thesis
    by (cases res) (simp_all add: timer_fires_def log_line_def)
qed

lemma initialize_subscribers [simp]: "subscribers (snd (initialize s url r)) = subscribers s"
  by (simp add: initialize_def log_line_def)

lemma handleNotification_subscribers [simp]:
  "subscribers (handleNotification parse s msg) = subscribers s"
  by (simp add: handleNotification_def log_line_def split: option.splits sum.splits prod.splits)

lemma shutdown_subscribers [simp]: "subscribers (shutdown s closed) = []"
  by (simp add: shutdown_def Let_def)

lemma subscribe_subscribers [simp]:
  "subscribers (snd (subscribe s sub)) = Map_set (subscribers s) (sub_id sub) sub"
  by (simp add: subscribe_def log_line_def)

lemma unsubscribe_subscribers [simp]:
  "subscribers (unsubscribe s i) = Map_delete (subscribers s) i"
  by (simp add: unsubscribe_def Let_def log_line_def)

lemma step_frame: "\<not> touches_registry e \<Longrightarrow> subscribers (step parse s e) = subscribers s"
  by (cases e) simp_all

lemma run_frame:
  "\<forall>e \<in> set evs. \<not> touches_registry e \<Longrightarrow> subscribers (run parse s evs) = subscribers s"
  unfolding run_def
  by (induction evs arbitrary: s) (simp_all add: step_frame)

lemma Map_has_set: "Map_has (Map_set m k v) k' \<longleftrightarrow> k' = k \<or> Map_has m k'"
  by (auto simp: Map_has_def Map_set_def dom_update)

lemma Map_has_delete: "Map_has (Map_delete m k) k' \<longleftrightarrow> k' \<noteq> k \<and> Map_has m k'"
  by (auto simp: Map_has_def Map_delete_def delete_keys)

lemma step_removes:
  "Map_has (subscribers s) k \<Longrightarrow> \<not> Map_has (subscribers (step parse s e)) k \<Longrightarrow>
   e = Unsubscribe k \<or> (\<exists>closed. e = Shutdown closed)"
  by (cases e) (auto simp: Map_has_set Map_has_delete)

text \<open>
  Claim C4.  The handler of a connection error, \<open>handleDisconnect\<close>,
  \<open>scheduleReconnect\<close>, a firing reconnect timer and \<open>connect\<close>, whatever the database
  answers, leave the subscriber registry as it was, entry for entry; so does every run
  of events that holds no subscribe, unsubscribe or shutdown.  \<open>shutdown\<close> empties the
  registry, and an id that is registered before an event and not after it was removed by
  the \<open>unsubscribe\<close> of that id or by a \<open>shutdown\<close>.
\<close>

theorem reconnect_keeps_subscribers:
  "subscribers (client_error s) = subscribers s
   \<and> subscribers (handleDisconnect s) = subscribers s
   \<and> subscribers (scheduleReconnect s) = subscribers s
   \<and> subscribers (timer_fires s r) = subscribers s
   \<and> subscribers (snd (connect s r)) = subscribers s
   \<and> ((\<forall>e \<in> set evs. \<not> touches_registry e) \<longrightarrow>
        subscribers (run parse s evs) = subscribers s)
   \<and> subscribers (shutdown s closed) = []
   \<and> (Map_has (subscribers s) k \<and> \<not> Map_has (subscribers (step parse s e)) k \<longrightarrow>
        e = Unsubscribe k \<or> (\<exists>c. e = Shutdown c))"
  using run_frame[of evs parse s] step_removes[of s k parse e]
  by simp

theorem reconnect_keeps_subscribers_witness:
  "subscribers (run parse_P1 two_subscribers
       [ClientError, TimerFires ConnectRejected, Notification msg_P1, TimerFires Connected]) =
     [(''ws-1'', subA), (''ws-2'', subB)]
   \<and> Map_has (subscribers two_subscribers) ''ws-1''
   \<and> \<not> Map_has (subscribers (step parse_P1 two_subscribers (Unsubscribe ''ws-1''))) ''ws-1''"
  using reconnect_keeps_subscribers[where s = two_subscribers and parse = parse_P1
      and evs = "[ClientError, TimerFires ConnectRejected, Notification msg_P1, TimerFires Connected]"
      and k = "''ws-1''" and e = "Unsubscribe ''ws-1''"]
  by (simp add: two_subscribers_fields Map_has_def Map_delete_def)

lemma registry_ok_ids: "registry_ok m \<Longrightarrow> distinct (map sub_id (Map_values m))"
proof -
  assume a: "registry_ok m"
  then have "map sub_id (Map_values m) = map fst m"
    by (auto simp: registry_ok_def Map_values_def list_all_iff)
  with a show ?thesis by (simp add: registry_ok_def)
qed

lemma list_all_update:
  "list_all P al \<Longrightarrow> P (k, v) \<Longrightarrow> list_all P (AList.update k v al)"
  by (induction al) auto

lemma list_all_delete: "list_all P al \<Longrightarrow> list_all P (AList.delete k al)"
  by (induction al) auto

lemma length_update:
  "length (AList.update k v al) = (if k \<in> fst ` set al then length al else Suc (length al))"
  by (induction al) auto

lemma registry_ok_set: "registry_ok m \<Longrightarrow> registry_ok (Map_set m (sub_id sub) sub)"
  by (simp add: registry_ok_def Map_set_def distinct_update list_all_update)

lemma registry_ok_delete: "registry_ok m \<Longrightarrow> registry_ok (Map_delete m k)"
  by (simp add: registry_ok_def Map_delete_def distinct_delete list_all_delete)

lemma registry_ok_step:
  "registry_ok (subscribers s) \<Longrightarrow> registry_ok (subscribers (step parse s e))"
  by (cases e) (simp_all add: registry_ok_set registry_ok_delete, simp add: registry_ok_def)

lemma registry_ok_run:
  "registry_ok (subscribers s) \<Longrightarrow> registry_ok (subscribers (run parse s evs))"
  unfolding run_def
  by (induction evs arbitrary: s) (simp_all add: registry_ok_step)

lemma registry_ok_new: "registry_ok (subscribers new_NotificationManager)"
  by (simp add: registry_ok_def new_NotificationManager_def)

lemma subscribe_handle: "fst (subscribe s sub) = sub"
  by (simp add: subscribe_def)

lemma subscribe_lookup:
  "map_of (subscribers (snd (subscribe s sub))) = (map_of (subscribers s))(sub_id sub \<mapsto> sub)"
  by (simp add: Map_set_def update_conv')

lemma subscribe_length:
  "length (subscribers (snd (subscribe s sub))) =
     (if Map_has (subscribers s) (sub_id sub) then length (subscribers s)
      else Suc (length (subscribers s)))"
  by (simp add: Map_set_def Map_has_def length_update)

lemma call_unsubscribe_lookup:
  "map_of (subscribers (call_unsubscribe h s)) = (map_of (subscribers s))(sub_id h := None)"
  by (simp add: call_unsubscribe_def Map_delete_def delete_conv')

lemma call_unsubscribe_has:
  "\<not> Map_has (subscribers (call_unsubscribe h s)) (sub_id h)"
  by (simp add: call_unsubscribe_def Map_has_delete)

text \<open>
  Claim C10.  After any run of events from a fresh manager the registry holds no key twice
  and no two subscribers with one id.  \<open>subscribe\<close> always succeeds and leaves the given
  subscriber under its id, every other id as it was; the registry grows by one entry when
  the id was not registered and keeps its size when it was, so a second \<open>subscribe\<close> with
  the same id replaces the first subscriber.  The handle that a \<open>subscribe\<close> returns,
  called in any later state, removes the entry of that id and no other: after the
  replacement both handles remove the replacing subscriber.
\<close>

theorem one_subscriber_per_id:
  "distinct (map fst (subscribers (run parse new_NotificationManager evs)))
   \<and> distinct (map sub_id (Map_values (subscribers (run parse new_NotificationManager evs))))
   \<and> map_of (subscribers (snd (subscribe s sub))) = (map_of (subscribers s))(sub_id sub \<mapsto> sub)
   \<and> length (subscribers (snd (subscribe s sub))) =
       (if Map_has (subscribers s) (sub_id sub) then length (subscribers s)
        else Suc (length (subscribers s)))
   \<and> (sub_id sub' = sub_id sub \<longrightarrow>
        map_of (subscribers (snd (subscribe (snd (subscribe s sub)) sub'))) =
          (map_of (subscribers s))(sub_id sub \<mapsto> sub')
        \<and> length (subscribers (snd (subscribe (snd (subscribe s sub)) sub'))) =
            length (subscribers (snd (subscribe s sub))))
   \<and> \<not> Map_has (subscribers (call_unsubscribe (fst (subscribe s sub)) s')) (sub_id sub)
   \<and> map_of (subscribers (call_unsubscribe (fst (subscribe s sub)) s')) =
       (map_of (subscribers s'))(sub_id sub := None)"
proof -
  have ok: "registry_ok (subscribers (run parse new_NotificationManager evs))"
    by (rule registry_ok_run[OF registry_ok_new])
  have d1: "distinct (map fst (subscribers (run parse new_NotificationManager evs)))"
    using ok by (simp add: registry_ok_def)
  have d2: "distinct (map sub_id (Map_values (subscribers (run parse new_NotificationManager evs))))"
    using ok by (rule registry_ok_ids)
  have twice: "sub_id sub' = sub_id sub \<longrightarrow>
        map_of (subscribers (snd (subscribe (snd (subscribe s sub)) sub'))) =
          (map_of (subscribers s))(sub_id sub \<mapsto> sub')
        \<and> length (subscribers (snd (subscribe (snd (subscribe s sub)) sub'))) =
            length (subscribers (snd (subscribe s sub)))"
    by (simp add: subscribe_lookup subscribe_length del: subscribe_subscribers)
       (simp add: Map_has_set)
  have h1: "\<not> Map_has (subscribers (call_unsubscribe (fst (subscribe s sub)) s')) (sub_id sub)"
    using call_unsubscribe_has[of "fst (subscribe s sub)" s'] by (simp add: subscribe_handle)
  have h2: "map_of (subscribers (call_unsubscribe (fst (subscribe s sub)) s')) =
       (map_of (subscribers s'))(sub_id sub := None)"
    by (simp add: call_unsubscribe_lookup subscribe_handle)
  from d1 d2 subscribe_lookup[of s sub] subscribe_length[of s sub] twice h1 h2
  show ?thesis by blast
qed

theorem one_subscriber_per_id_witness:
  "sub_id subA' = sub_id subA
   \<and> map_of (subscribers (snd (subscribe (snd (subscribe listening subA)) subA'))) ''ws-1'' =
       Some subA'
   \<and> length (subscribers (snd (subscribe (snd (subscribe listening subA)) subA'))) = 1
   \<and> \<not> Map_has
         (subscribers (call_unsubscribe (fst (subscribe listening subA))
            (snd (subscribe (snd (subscribe listening subA)) subA'))))
         ''ws-1''"
  using one_subscriber_per_id[where s = listening and sub = subA and sub' = subA'
      and s' = "snd (subscribe (snd (subscribe listening subA)) subA')"]
  by (simp add: listening_fields subA_def subA'_def Map_has_def del: subscribe_subscribers)

section \<open>Properties of the ingestion schemas\<close>


text \<open>
  Claim C5, as the code has it.  A batch passes \<open>ingestRequestSchema\<close> exactly when it
  holds between 1 and 1000 logs and every log has a \<open>time\<close> that is a datetime string or
  a valid \<open>Date\<close>, a service name of 1 to 100 characters, a level among \<open>debug\<close>,
  \<open>info\<close>, \<open>warn\<close>, \<open>error\<close>, \<open>critical\<close>, a non-empty message and, when
  \<open>span_id\<close> is present, a \<open>span_id\<close> of sixteen hexadecimal digits whose letters may
  be of either case.  Every other batch is rejected with a validation error.
\<close>

theorem ingestRequestSchema_accepts:
  "(ingestRequestSchema datetime r \<longleftrightarrow>
      1 \<le> length (logs r) \<and> length (logs r) \<le> 1000 \<and>
      (\<forall>l \<in> set (logs r).
         (case time l of TimeString s \<Rightarrow> datetime s | TimeDate valid \<Rightarrow> valid) \<and>
         1 \<le> length (service l) \<and> length (service l) \<le> 100 \<and>
         level l \<in> {''debug'', ''info'', ''warn'', ''error'', ''critical''} \<and>
         message l \<noteq> [] \<and>
         (\<forall>s. span_id l = Some s \<longrightarrow>
            length s = 16 \<and> (\<forall>c \<in> set s. c \<in> set ''abcdef0123456789ABCDEF''))))
   \<and> (safeParse datetime r = Inl ZodError \<longleftrightarrow> \<not> ingestRequestSchema datetime r)
   \<and> (safeParse datetime r = Inr r \<longleftrightarrow> ingestRequestSchema datetime r)"
proof -
  have log: "logSchema datetime l \<longleftrightarrow>
         (case time l of TimeString s \<Rightarrow> datetime s | TimeDate valid \<Rightarrow> valid) \<and>
         1 \<le> length (service l) \<and> length (service l) \<le> 100 \<and>
         level l \<in> {''debug'', ''info'', ''warn'', ''error'', ''critical''} \<and>
         message l \<noteq> [] \<and>
         (\<forall>s. span_id l = Some s \<longrightarrow>
            length s = 16 \<and> (\<forall>c \<in> set s. c \<in> set ''abcdef0123456789ABCDEF''))" for l
  proof -
    have lev: "logLevelSchema (level l) \<longleftrightarrow>
        level l \<in> {''debug'', ''info'', ''warn'', ''error'', ''critical''}"
      unfolding logLevelSchema_def LOG_LEVELS_def by (simp only: list.set)
    have msg: "1 \<le> length (message l) \<longleftrightarrow> message l \<noteq> []"
      by (cases "message l") simp_all
    have re: "span_id_regex sp \<longleftrightarrow>
        length sp = 16 \<and> (\<forall>c \<in> set sp. c \<in> set ''abcdef0123456789ABCDEF'')" for sp
      unfolding span_id_regex_def list_all_iff hex_digit_ignoring_case_def ..
    have sp: "(case span_id l of None \<Rightarrow> True | Some s \<Rightarrow> span_id_regex s) \<longleftrightarrow>
        (\<forall>s. span_id l = Some s \<longrightarrow>
            length s = 16 \<and> (\<forall>c \<in> set s. c \<in> set ''abcdef0123456789ABCDEF''))"
      by (cases "span_id l") (simp_all add: re)
    show ?thesis
      unfolding logSchema_def timeSchema_def lev msg sp ..
  qed
  have "ingestRequestSchema datetime r \<longleftrightarrow>
      1 \<le> length (logs r) \<and> length (logs r) \<le> 1000 \<and>
      (\<forall>l \<in> set (logs r). logSchema datetime l)"
    by (simp add: ingestRequestSchema_def list_all_iff)
  then show ?thesis
    by (simp only: log) (simp add: safeParse_def)
qed

text \<open>
  Claim C5 as stated fails in both directions.  A batch whose one log has the upper-case
  \<open>span_id\<close> \<open>ABCDEF0123456789\<close> passes, though the \<open>span_id\<close> does not match the
  lower-case pattern; and a batch whose one log meets every condition of the claim is
  rejected when its \<open>time\<close> is not a datetime.
\<close>

theorem ingestRequestSchema_accepts_counterexample:
  "ingestRequestSchema datetime_one \<lparr>logs = [log_upper_span]\<rparr>
   \<and> span_id log_upper_span = Some ''ABCDEF0123456789''
   \<and> \<not> lowercase_hex16 ''ABCDEF0123456789''
   \<and> \<not> ingestRequestSchema datetime_one \<lparr>logs = [log_bad_time]\<rparr>
   \<and> span_id log_bad_time = None \<and> length (service log_bad_time) = 3
   \<and> level log_bad_time = ''error'' \<and> message log_bad_time \<noteq> []"
  by (simp add: ingestRequestSchema_def logSchema_def timeSchema_def logLevelSchema_def
      LOG_LEVELS_def span_id_regex_def hex_digit_ignoring_case_def lowercase_hex16_def
      log_upper_span_def log_bad_time_def datetime_one_def)

theorem ingestRequestSchema_accepts_witness:
  "ingestRequestSchema datetime_one
     \<lparr>logs = [log_upper_span, log_bad_time\<lparr>time := TimeString ''2024-01-01T00:00:00Z''\<rparr>]\<rparr>
   \<and> safeParse datetime_one \<lparr>logs = []\<rparr> = Inl ZodError"
  using ingestRequestSchema_accepts[of datetime_one
      "\<lparr>logs = [log_upper_span, log_bad_time\<lparr>time := TimeString ''2024-01-01T00:00:00Z''\<rparr>]\<rparr>"]
    ingestRequestSchema_accepts[of datetime_one "\<lparr>logs = []\<rparr>"]
  by (simp add: log_upper_span_def log_bad_time_def datetime_one_def)

section \<open>Properties of the queue connection\<close>

lemma retryStrategy_eq: "retryStrategy n = min (1000 * n) 30000"
  by (simp add: retryStrategy_def Let_def mult.commute)

lemma reconnectOnError_iff:
  "reconnectOnError m \<longleftrightarrow>
     String_includes m ''READONLY'' \<or> String_includes m ''ECONNRESET'' \<or>
     String_includes m ''ECONNREFUSED''"
  by (simp add: reconnectOnError_def targetErrors_def)

text \<open>
  Claim C8, as the code has it.  The delay before the \<open>n\<close>-th retry of the Redis
  connection is \<open>min (1000 n) 30000\<close> milliseconds: it grows by one second per retry, so
  linearly, up to the ceiling of 30 seconds, which it reaches at the 30th retry.
  \<open>reconnectOnError\<close> answers true exactly for an error whose message contains
  \<open>READONLY\<close>, \<open>ECONNRESET\<close> or \<open>ECONNREFUSED\<close>.
\<close>

theorem redis_retry_and_reconnect:
  "retryStrategy n = min (1000 * n) 30000
   \<and> retryStrategy n \<le> 30000
   \<and> (n \<le> 30 \<longrightarrow> retryStrategy n = 1000 * n)
   \<and> (n < 30 \<longrightarrow> retryStrategy (Suc n) = retryStrategy n + 1000)
   \<and> (30 \<le> n \<longrightarrow> retryStrategy n = 30000)
   \<and> (reconnectOnError m \<longleftrightarrow>
        (\<exists>a b. m = a @ ''READONLY'' @ b) \<or> (\<exists>a b. m = a @ ''ECONNRESET'' @ b) \<or>
        (\<exists>a b. m = a @ ''ECONNREFUSED'' @ b))"
proof -
  have a: "retryStrategy n = min (1000 * n) 30000"
    by (rule retryStrategy_eq)
  have b: "retryStrategy n \<le> 30000"
    by (simp add: retryStrategy_eq)
  have c: "n \<le> 30 \<longrightarrow> retryStrategy n = 1000 * n"
    by (simp add: retryStrategy_eq)
  have d: "n < 30 \<longrightarrow> retryStrategy (Suc n) = retryStrategy n + 1000"
    by (simp add: retryStrategy_eq)
  have e: "30 \<le> n \<longrightarrow> retryStrategy n = 30000"
    by (simp add: retryStrategy_eq)
  have f: "reconnectOnError m \<longleftrightarrow>
        (\<exists>a b. m = a @ ''READONLY'' @ b) \<or> (\<exists>a b. m = a @ ''ECONNRESET'' @ b) \<or>
        (\<exists>a b. m = a @ ''ECONNREFUSED'' @ b)"
    unfolding reconnectOnError_iff String_includes_def sublist_def ..
  from a b c d e f show ?thesis by blast
qed

text \<open>
  Claim C8 as stated fails in its first part: the delays 1000, 2000, 3000 of the first
  three retries, all below the ceiling, are not those of an exponential backoff (the third
  is not \<open>1000 * 2 ^ 2\<close>, and the three are in no geometric progression).
\<close>

theorem redis_retry_and_reconnect_counterexample:
  "retryStrategy 1 = 1000 \<and> retryStrategy 2 = 2000 \<and> retryStrategy 3 = 3000
   \<and> retryStrategy 3 < 30000
   \<and> retryStrategy 3 \<noteq> reconnect_delay 3
   \<and> retryStrategy 2 * retryStrategy 2 \<noteq> retryStrategy 1 * retryStrategy 3"
  by (simp add: retryStrategy_def reconnect_delay_def)


theorem redis_retry_and_reconnect_witness:
  "retryStrategy 7 = 7000 \<and> retryStrategy 8 = retryStrategy 7 + 1000 \<and> retryStrategy 45 = 30000
   \<and> reconnectOnError ''read ECONNRESET''
   \<and> \<not> reconnectOnError ''ETIMEDOUT''"
proof -
  have split: "''read ECONNRESET'' = ''read '' @ ''ECONNRESET'' @ []"
    by simp
  have y: "reconnectOnError ''read ECONNRESET''"
    using redis_retry_and_reconnect[of 7 "''read ECONNRESET''"] split by blast
  have n: "\<not> reconnectOnError ''ETIMEDOUT''"
    by (simp add: reconnectOnError_def targetErrors_def String_includes_def sublist_Cons_right)
  have z: "retryStrategy 7 = 7000 \<and> retryStrategy 8 = retryStrategy 7 + 1000 \<and>
      retryStrategy 45 = 30000"
    using redis_retry_and_reconnect[of 7 m] redis_retry_and_reconnect[of 45 m] by simp
  from y n z show ?thesis by blast
qed

section \<open>Properties of the queue system manager\<close>


lemma Map_get_set: "Map_get (Map_set m k v) k' = (if k' = k then Some v else Map_get m k')"
  by (simp add: Map_get_def Map_set_def update_conv')

lemma initialize_initialised:
  "initializeQueueSystem new_QueueSystemManager cfg = (Inr (), s) \<Longrightarrow> initialised s"
  by (auto simp: initializeQueueSystem_def new_QueueSystemManager_def initialised_def Let_def
      split: if_splits)

lemma createQueue_cached:
  "Map_get (queueCache s) name = Some q \<Longrightarrow> config s \<noteq> None \<Longrightarrow> createQueue s name = (Inr q, s)"
  by (auto simp: createQueue_def)

lemma createWorker_cached:
  "Map_get (workerCache s) name = Some w \<Longrightarrow> config s \<noteq> None \<Longrightarrow>
   createWorker s name processor = (Inr w, s)"
  by (auto simp: createWorker_def)

lemma createQueue_result:
  assumes "createQueue s name = (Inr q, s')"
  shows "Map_get (queueCache s') name = Some q" "config s' \<noteq> None"
  using assms
  by (auto simp: createQueue_def Map_get_set getRedisConnection_def getPgPool_def
      split: option.splits sum.splits if_splits)

lemma createWorker_result:
  assumes "createWorker s name processor = (Inr w, s')"
  shows "Map_get (workerCache s') name = Some w" "config s' \<noteq> None"
  using assms
  by (auto simp: createWorker_def Map_get_set getRedisConnection_def getPgPool_def
      split: option.splits sum.splits if_splits)

lemma createQueue_keeps:
  "Map_get (queueCache s) n = Some q \<Longrightarrow> Map_get (queueCache (snd (createQueue s name))) n = Some q"
  "Map_get (workerCache s) n = Some w \<Longrightarrow> Map_get (workerCache (snd (createQueue s name))) n = Some w"
  "config s \<noteq> None \<Longrightarrow> config (snd (createQueue s name)) \<noteq> None"
  by (auto simp: createQueue_def Map_get_set split: option.splits sum.splits)

lemma createWorker_keeps:
  "Map_get (queueCache s) n = Some q \<Longrightarrow>
     Map_get (queueCache (snd (createWorker s name processor))) n = Some q"
  "Map_get (workerCache s) n = Some w \<Longrightarrow>
     Map_get (workerCache (snd (createWorker s name processor))) n = Some w"
  "config s \<noteq> None \<Longrightarrow> config (snd (createWorker s name processor)) \<noteq> None"
  by (auto simp: createWorker_def Map_get_set split: option.splits sum.splits)

lemma factory_step_keeps:
  "Map_get (queueCache s) n = Some q \<Longrightarrow> Map_get (queueCache (factory_step s c)) n = Some q"
  "Map_get (workerCache s) n = Some w \<Longrightarrow> Map_get (workerCache (factory_step s c)) n = Some w"
  "config s \<noteq> None \<Longrightarrow> config (factory_step s c) \<noteq> None"
  by (cases c; simp add: createQueue_keeps createWorker_keeps)+

lemma factory_run_keeps:
  "Map_get (queueCache s) n = Some q \<Longrightarrow> Map_get (queueCache (foldl factory_step s cs)) n = Some q"
  "Map_get (workerCache s) n = Some w \<Longrightarrow> Map_get (workerCache (foldl factory_step s cs)) n = Some w"
  "config s \<noteq> None \<Longrightarrow> config (foldl factory_step s cs) \<noteq> None"
proof (induction cs arbitrary: s)
  case Nil
  { case 1 then show ?case by simp }
  { case 2 then show ?case by simp }
  { case 3 then show ?case by simp }
next
  case (Cons c cs)
  { case 1
    from Cons.IH(1)[OF factory_step_keeps(1)[OF 1]] show ?case by simp }
  { case 2
    from Cons.IH(2)[OF factory_step_keeps(2)[OF 2]] show ?case by simp }
  { case 3
    from Cons.IH(3)[OF factory_step_keeps(3)[OF 3]] show ?case by simp }
qed

lemma createQueue_initialised:
  assumes "initialised s"
  shows "\<exists>q. createQueue s name = (Inr q, snd (createQueue s name)) \<and>
     initialised (snd (createQueue s name))"
proof -
  from assms obtain cfg where cfg: "config s = Some cfg" "initialized s"
    "backend cfg = bullmq \<Longrightarrow> redisConnection s \<noteq> None"
    "backend cfg \<noteq> bullmq \<Longrightarrow> pgPool s \<noteq> None"
    by (auto simp: initialised_def split: option.splits if_splits)
  show ?thesis
  proof (cases "Map_get (queueCache s) name")
    case (Some q)
    with cfg assms show ?thesis by (simp add: createQueue_def)
  next
    case None
    show ?thesis
    proof (cases "backend cfg = bullmq")
      case True
      with cfg(3) obtain c where "redisConnection s = Some c" by auto
      with cfg None True show ?thesis
        by (simp add: createQueue_def getRedisConnection_def initialised_def)
    next
      case False
      with cfg(4) obtain c where "pgPool s = Some c" by auto
      with cfg None False show ?thesis
        by (simp add: createQueue_def getPgPool_def initialised_def)
    qed
  qed
qed

lemma createWorker_initialised:
  assumes "initialised s"
  shows "\<exists>w. createWorker s name p = (Inr w, snd (createWorker s name p)) \<and>
     initialised (snd (createWorker s name p))"
proof -
  from assms obtain cfg where cfg: "config s = Some cfg" "initialized s"
    "backend cfg = bullmq \<Longrightarrow> redisConnection s \<noteq> None"
    "backend cfg \<noteq> bullmq \<Longrightarrow> pgPool s \<noteq> None"
    by (auto simp: initialised_def split: option.splits if_splits)
  show ?thesis
  proof (cases "Map_get (workerCache s) name")
    case (Some q)
    with cfg assms show ?thesis by (simp add: createWorker_def)
  next
    case None
    show ?thesis
    proof (cases "backend cfg = bullmq")
      case True
      with cfg(3) obtain c where "redisConnection s = Some c" by auto
      with cfg None True show ?thesis
        by (simp add: createWorker_def getRedisConnection_def initialised_def)
    next
      case False
      with cfg(4) obtain c where "pgPool s = Some c" by auto
      with cfg None False show ?thesis
        by (simp add: createWorker_def getPgPool_def initialised_def)
    qed
  qed
qed

text \<open>
  Claim C7.  On an initialised queue system \<open>createQueue\<close> and \<open>createWorker\<close>
  succeed and leave it initialised.  When a call has returned an adapter for a name, a
  second call with that name, at once or after any further calls of the two functions,
  returns that very adapter and changes nothing; for \<open>createWorker\<close> this holds
  whatever processor \<open>p'\<close> the second call is given, and the adapter returned still
  holds the processor of the first call.
\<close>

theorem factory_idempotent:
  "(initialised s \<longrightarrow>
      (\<exists>q s1. createQueue s name = (Inr q, s1) \<and> initialised s1) \<and>
      (\<exists>w s1. createWorker s name p = (Inr w, s1) \<and> initialised s1))
   \<and> (createQueue s name = (Inr q, s1) \<longrightarrow>
        createQueue s1 name = (Inr q, s1) \<and>
        fst (createQueue (foldl factory_step s1 cs) name) = Inr q)
   \<and> (createWorker s name p = (Inr w, s1) \<longrightarrow>
        createWorker s1 name p' = (Inr w, s1) \<and>
        fst (createWorker (foldl factory_step s1 cs) name p') = Inr w)"
proof -
  have a: "initialised s \<longrightarrow>
      (\<exists>q s1. createQueue s name = (Inr q, s1) \<and> initialised s1) \<and>
      (\<exists>w s1. createWorker s name p = (Inr w, s1) \<and> initialised s1)"
    using createQueue_initialised[of s name] createWorker_initialised[of s name p] by blast
  have b: "createQueue s1 name = (Inr q, s1) \<and>
        fst (createQueue (foldl factory_step s1 cs) name) = Inr q"
    if h: "createQueue s name = (Inr q, s1)"
  proof -
    note r = createQueue_result[OF h]
    have "createQueue s1 name = (Inr q, s1)"
      using r by (rule createQueue_cached)
    moreover have "createQueue (foldl factory_step s1 cs) name = (Inr q, foldl factory_step s1 cs)"
      using factory_run_keeps(1)[OF r(1)] factory_run_keeps(3)[OF r(2)] by (rule createQueue_cached)
    ultimately show ?thesis by simp
  qed
  have c: "createWorker s1 name p' = (Inr w, s1) \<and>
        fst (createWorker (foldl factory_step s1 cs) name p') = Inr w"
    if h: "createWorker s name p = (Inr w, s1)"
  proof -
    note r = createWorker_result[OF h]
    have "createWorker s1 name p' = (Inr w, s1)"
      using r by (rule createWorker_cached)
    moreover have "createWorker (foldl factory_step s1 cs) name p' = (Inr w, foldl factory_step s1 cs)"
      using factory_run_keeps(2)[OF r(1)] factory_run_keeps(3)[OF r(2)] by (rule createWorker_cached)
    ultimately show ?thesis by simp
  qed
  from a b c show ?thesis by blast
qed

lemma graphile_system_initialised: "initialised graphile_system"
  by (simp add: graphile_system_def initializeQueueSystem_def new_QueueSystemManager_def
      initialised_def Let_def)

lemma graphile_system_first_worker:
  "createWorker graphile_system ''scan'' 1 =
     (Inr (GraphileWorkerAdapter 0 ''scan'' 1 (Pool ''postgres://db'')),
      snd (createWorker graphile_system ''scan'' 1))"
  by (simp add: graphile_system_def initializeQueueSystem_def new_QueueSystemManager_def
      createWorker_def getPgPool_def Map_get_def Let_def)

theorem factory_idempotent_witness:
  "initialised graphile_system
   \<and> fst (createWorker graphile_system ''scan'' 1) =
       Inr (GraphileWorkerAdapter 0 ''scan'' 1 (Pool ''postgres://db''))
   \<and> fst (createWorker (snd (createWorker graphile_system ''scan'' 1)) ''scan'' 2) =
       Inr (GraphileWorkerAdapter 0 ''scan'' 1 (Pool ''postgres://db''))
   \<and> fst (createWorker
          (foldl factory_step (snd (createWorker graphile_system ''scan'' 1))
             [CreateQueue ''scan'', CreateWorker ''alerts'' 3])
          ''scan'' 2) =
       Inr (GraphileWorkerAdapter 0 ''scan'' 1 (Pool ''postgres://db''))"
proof -
  let ?W = "GraphileWorkerAdapter 0 ''scan'' (1::nat) (Pool ''postgres://db'')"
  let ?s1 = "snd (createWorker graphile_system ''scan'' 1)"
  have first: "createWorker graphile_system ''scan'' 1 = (Inr ?W, ?s1)"
    by (rule graphile_system_first_worker)
  have again: "createWorker ?s1 ''scan'' 2 = (Inr ?W, ?s1) \<and>
      fst (createWorker (foldl factory_step ?s1 [CreateQueue ''scan'', CreateWorker ''alerts'' 3])
             ''scan'' 2) = Inr ?W"
    using factory_idempotent[where s = graphile_system and name = "''scan''" and p = 1
        and p' = 2 and w = ?W and ?s1.0 = ?s1
        and cs = "[CreateQueue ''scan'', CreateWorker ''alerts'' 3]"] first
    by blast
  have f1: "fst (createWorker graphile_system ''scan'' 1) = Inr ?W"
    by (metis first fst_conv)
  have f2: "fst (createWorker ?s1 ''scan'' 2) = Inr ?W"
    by (metis again fst_conv)
  from graphile_system_initialised f1 f2 again show ?thesis
    by blast
qed

section \<open>Properties of the incident correlator\<close>


lemma append_to_first_split:
  "list_ex (appendable family now e) store \<Longrightarrow>
   \<exists>pre i post. store = pre @ i # post \<and> appendable family now e i \<and>
     list_all (\<lambda>j. \<not> appendable family now e j) pre \<and>
     append_to_first family now e store = pre @ append_event now e i # post"
proof (induction store)
  case Nil
  then show ?case by simp
next
  case (Cons a store)
  show ?case
  proof (cases "appendable family now e a")
    case True
    then have "a # store = [] @ a # store \<and> appendable family now e a \<and>
        list_all (\<lambda>j. \<not> appendable family now e j) [] \<and>
        append_to_first family now e (a # store) = [] @ append_event now e a # store"
      by simp
    then show ?thesis by blast
  next
    case False
    with Cons.prems have "list_ex (appendable family now e) store" by simp
    from Cons.IH[OF this] obtain pre i post where
      h: "store = pre @ i # post" "appendable family now e i"
        "list_all (\<lambda>j. \<not> appendable family now e j) pre"
        "append_to_first family now e store = pre @ append_event now e i # post"
      by blast
    with False have "a # store = (a # pre) @ i # post \<and> appendable family now e i \<and>
        list_all (\<lambda>j. \<not> appendable family now e j) (a # pre) \<and>
        append_to_first family now e (a # store) = (a # pre) @ append_event now e i # post"
      by simp
    then show ?thesis by blast
  qed
qed

lemma terminal_not_appendable: "is_terminal (status i) \<Longrightarrow> \<not> appendable family now e i"
  by (auto simp: is_terminal_def appendable_def)

lemma append_to_first_keeps:
  "\<not> appendable family now e i \<Longrightarrow> i \<in> set store \<Longrightarrow> i \<in> set (append_to_first family now e store)"
  by (induction store) auto

lemma correlate_keeps:
  "\<not> appendable family now e i \<Longrightarrow> i \<in> set store \<Longrightarrow> i \<in> set (correlate family now store e)"
  by (simp add: correlate_def append_to_first_keeps)

lemma append_event_fields:
  "detectionCount (append_event now e i) = detectionCount i + 1"
  "set (affectedServices (append_event now e i)) = set (affectedServices i) \<union> {event_service e}"
  "getSeverityWeight (severity (append_event now e i)) =
     max (getSeverityWeight (severity i)) (getSeverityWeight (event_severity e))"
  "status (append_event now e i) = status i"
  "incident_id (append_event now e i) = incident_id i"
  by (auto simp: append_event_def max_severity_def)

text \<open>
  Claim C9, against the correlator modelled from the specification.  When the store holds
  an open incident of the event's (tenant, project, rule family) updated at most fifteen
  minutes before the event is received, the first such incident takes the event: its
  detection count grows by one, its affected services are joined with the event's
  service, its severity becomes the heavier of the two, it stays open, and every other
  incident is untouched.  Otherwise the store gains one incident: open, of the event's
  severity and key, with detection count 1.  An incident that is resolved or a false
  positive never takes an event and stays in the store as it is; when every incident of
  the event's key is in such a state, the event opens a fresh incident.
\<close>

theorem correlate_policy:
  "(list_ex (appendable family now e) store \<longrightarrow>
      (\<exists>pre i post. store = pre @ i # post \<and> appendable family now e i \<and>
         list_all (\<lambda>j. \<not> appendable family now e j) pre \<and>
         correlate family now store e = pre @ append_event now e i # post \<and>
         detectionCount (append_event now e i) = detectionCount i + 1 \<and>
         set (affectedServices (append_event now e i)) =
           set (affectedServices i) \<union> {event_service e} \<and>
         getSeverityWeight (severity (append_event now e i)) =
           max (getSeverityWeight (severity i)) (getSeverityWeight (event_severity e)) \<and>
         status (append_event now e i) = StatusOpen))
   \<and> (\<not> list_ex (appendable family now e) store \<longrightarrow>
        (\<exists>n. correlate family now store e = store @ [n] \<and> status n = StatusOpen \<and>
           severity n = event_severity e \<and> detectionCount n = 1 \<and>
           affectedServices n = [event_service e] \<and>
           tenant n = event_tenant e \<and> project n = event_project e \<and>
           ruleFamily n = family (ruleId e)))
   \<and> (\<forall>i \<in> set store. is_terminal (status i) \<longrightarrow>
        \<not> appendable family now e i \<and> i \<in> set (correlate family now store e))
   \<and> (list_all (\<lambda>i. tenant i = event_tenant e \<and> project i = event_project e \<and>
                    ruleFamily i = family (ruleId e) \<longrightarrow> is_terminal (status i)) store \<longrightarrow>
        correlate family now store e = store @ [open_incident family now (length store) e])"
proof -
  have a: "list_ex (appendable family now e) store \<longrightarrow>
      (\<exists>pre i post. store = pre @ i # post \<and> appendable family now e i \<and>
         list_all (\<lambda>j. \<not> appendable family now e j) pre \<and>
         correlate family now store e = pre @ append_event now e i # post \<and>
         detectionCount (append_event now e i) = detectionCount i + 1 \<and>
         set (affectedServices (append_event now e i)) =
           set (affectedServices i) \<union> {event_service e} \<and>
         getSeverityWeight (severity (append_event now e i)) =
           max (getSeverityWeight (severity i)) (getSeverityWeight (event_severity e)) \<and>
         status (append_event now e i) = StatusOpen)"
  proof
    assume ex: "list_ex (appendable family now e) store"
    from append_to_first_split[OF ex] obtain pre i post where
      h: "store = pre @ i # post" "appendable family now e i"
        "list_all (\<lambda>j. \<not> appendable family now e j) pre"
        "append_to_first family now e store = pre @ append_event now e i # post"
      by blast
    have c: "correlate family now store e = pre @ append_event now e i # post"
      using ex h(4) by (simp add: correlate_def)
    have st: "status (append_event now e i) = StatusOpen"
      using h(2) by (simp add: append_event_fields appendable_def)
    from h(1,2,3) c st append_event_fields(1,2,3)[of now e i]
    show "\<exists>pre i post. store = pre @ i # post \<and> appendable family now e i \<and>
         list_all (\<lambda>j. \<not> appendable family now e j) pre \<and>
         correlate family now store e = pre @ append_event now e i # post \<and>
         detectionCount (append_event now e i) = detectionCount i + 1 \<and>
         set (affectedServices (append_event now e i)) =
           set (affectedServices i) \<union> {event_service e} \<and>
         getSeverityWeight (severity (append_event now e i)) =
           max (getSeverityWeight (severity i)) (getSeverityWeight (event_severity e)) \<and>
         status (append_event now e i) = StatusOpen"
      by blast
  qed
  have b: "\<not> list_ex (appendable family now e) store \<longrightarrow>
        (\<exists>n. correlate family now store e = store @ [n] \<and> status n = StatusOpen \<and>
           severity n = event_severity e \<and> detectionCount n = 1 \<and>
           affectedServices n = [event_service e] \<and>
           tenant n = event_tenant e \<and> project n = event_project e \<and>
           ruleFamily n = family (ruleId e))"
    by (auto simp: correlate_def open_incident_def)
  have c: "\<forall>i \<in> set store. is_terminal (status i) \<longrightarrow>
        \<not> appendable family now e i \<and> i \<in> set (correlate family now store e)"
    using terminal_not_appendable correlate_keeps by blast
  have d: "list_all (\<lambda>i. tenant i = event_tenant e \<and> project i = event_project e \<and>
                    ruleFamily i = family (ruleId e) \<longrightarrow> is_terminal (status i)) store \<longrightarrow>
        correlate family now store e = store @ [open_incident family now (length store) e]"
  proof
    assume t: "list_all (\<lambda>i. tenant i = event_tenant e \<and> project i = event_project e \<and>
                    ruleFamily i = family (ruleId e) \<longrightarrow> is_terminal (status i)) store"
    have "\<not> list_ex (appendable family now e) store"
    proof
      assume "list_ex (appendable family now e) store"
      then obtain i where i: "i \<in> set store" "appendable family now e i"
        by (auto simp: list_ex_iff)
      with t have "is_terminal (status i)"
        by (auto simp: list_all_iff appendable_def)
      with i(2) show False
        using terminal_not_appendable by blast
    qed
    then show "correlate family now store e = store @ [open_incident family now (length store) e]"
      by (simp add: correlate_def)
  qed
  from a b c d show ?thesis by blast
qed

lemma store_after_one_eq:
  "store_after_one =
     [\<lparr>incident_id = 0, tenant = ''org'', project = ''P1'', ruleFamily = ''oom-crashes'',
       status = StatusOpen, severity = High, detectionCount = 1, affectedServices = [''api''],
       createdAt = 0, updatedAt = 0\<rparr>]"
  by (simp add: store_after_one_def correlate_def open_incident_def oom_event_def)

lemma store_after_two_eq:
  "store_after_two =
     [\<lparr>incident_id = 0, tenant = ''org'', project = ''P1'', ruleFamily = ''oom-crashes'',
       status = StatusOpen, severity = Critical, detectionCount = 2,
       affectedServices = [''worker'', ''api''], createdAt = 0, updatedAt = 600000\<rparr>]"
  by (simp add: store_after_two_def store_after_one_eq correlate_def appendable_def
      append_event_def max_severity_def oom_event_def minutes_def CORRELATION_WINDOW_MS_def)

theorem correlate_policy_witness:
  "list_ex (appendable (\<lambda>r. r) (minutes 10) (oom_event Critical ''worker'')) store_after_one
   \<and> map detectionCount store_after_two = [2]
   \<and> \<not> list_ex (appendable (\<lambda>r. r) (minutes 30) (oom_event Low ''api'')) store_after_two
   \<and> map detectionCount
         (correlate (\<lambda>r. r) (minutes 30) store_after_two (oom_event Low ''api'')) = [2, 1]
   \<and> map status
         (correlate (\<lambda>r. r) (minutes 11) (map (\<lambda>i. i\<lparr>status := StatusResolved\<rparr>) store_after_two)
            (oom_event Low ''api'')) = [StatusResolved, StatusOpen]"
proof -
  have a: "list_ex (appendable (\<lambda>r. r) (minutes 10) (oom_event Critical ''worker'')) store_after_one"
    by (simp add: store_after_one_eq appendable_def oom_event_def minutes_def
        CORRELATION_WINDOW_MS_def)
  have b: "map detectionCount store_after_two = [2]"
    by (simp add: store_after_two_eq)
  have c: "\<not> list_ex (appendable (\<lambda>r. r) (minutes 30) (oom_event Low ''api'')) store_after_two"
    by (simp add: store_after_two_eq appendable_def oom_event_def minutes_def
        CORRELATION_WINDOW_MS_def)
  obtain n where n: "correlate (\<lambda>r. r) (minutes 30) store_after_two (oom_event Low ''api'') =
      store_after_two @ [n]" "detectionCount n = 1"
    using correlate_policy[of "\<lambda>r. r" "minutes 30" "oom_event Low ''api''" store_after_two] c
    by blast
  have d: "map detectionCount
         (correlate (\<lambda>r. r) (minutes 30) store_after_two (oom_event Low ''api'')) = [2, 1]"
    by (simp add: n b)
  have all_terminal: "list_all (\<lambda>i. tenant i = event_tenant (oom_event Low ''api'') \<and>
        project i = event_project (oom_event Low ''api'') \<and>
        ruleFamily i = (\<lambda>r. r) (ruleId (oom_event Low ''api'')) \<longrightarrow> is_terminal (status i))
      (map (\<lambda>i. i\<lparr>status := StatusResolved\<rparr>) store_after_two)"
    by (simp add: store_after_two_eq is_terminal_def)
  have e: "correlate (\<lambda>r. r) (minutes 11) (map (\<lambda>i. i\<lparr>status := StatusResolved\<rparr>) store_after_two)
            (oom_event Low ''api'') =
        map (\<lambda>i. i\<lparr>status := StatusResolved\<rparr>) store_after_two @
        [open_incident (\<lambda>r. r) (minutes 11)
           (length (map (\<lambda>i. i\<lparr>status := StatusResolved\<rparr>) store_after_two)) (oom_event Low ''api'')]"
    using correlate_policy[of "\<lambda>r. r" "minutes 11" "oom_event Low ''api''"
        "map (\<lambda>i. i\<lparr>status := StatusResolved\<rparr>) store_after_two"] all_terminal
    by blast
  have f: "map status
         (correlate (\<lambda>r. r) (minutes 11) (map (\<lambda>i. i\<lparr>status := StatusResolved\<rparr>) store_after_two)
            (oom_event Low ''api'')) = [StatusResolved, StatusOpen]"
    unfolding e by (simp add: store_after_two_eq open_incident_def)
  from a b c d f show ?thesis by blast
qed

end
